theory Spec2Isabelle
  imports Complex_Main "HOL-Library.AList"
begin

section \<open>Link-state routing core: OSPF-style and ISIS-style routers\<close>

text \<open>
  A shallow embedding of \<^verbatim>\<open>ospf_router.py\<close>, \<^verbatim>\<open>isis_router.py\<close>, \<^verbatim>\<open>ospf_network.py\<close> and of
  the record exchange loop of \<^verbatim>\<open>demo.py\<close>.

  \<^item> A Python \<^verbatim>\<open>dict\<close> keeps insertion order, which the code observes (the minimum scan of
    the shortest-path loop, the first interface found for a neighbour). It is an association
    list: \<open>map_of d k\<close> is \<^verbatim>\<open>d.get(k)\<close>, \<open>AList.update k v d\<close> is \<^verbatim>\<open>d[k] = v\<close> (an existing
    key keeps its position, a new key goes to the end), \<open>map fst d\<close> is \<^verbatim>\<open>d.keys()\<close>. The keys of
    a \<^verbatim>\<open>dict\<close> are distinct; \<open>distinct (map fst d)\<close> says so where a theorem needs it.
  \<^item> Every method mutates its object; the model takes the state and returns the new one.
    Records are stored in the databases by reference. The only in-place change of a stored
    record in the sources is the \<^verbatim>\<open>links.append\<close> of \<^verbatim>\<open>connect_routers\<close>, on the record that
    \<^verbatim>\<open>add_interface\<close> has created a moment before in the same call, which no other database
    holds: values model it faithfully.
  \<^item> An exception is a value of \<open>py_error\<close>; a function that can raise returns
    \<open>py_error + _\<close>.
  \<^item> \<^verbatim>\<open>time.time()\<close> is an argument \<open>now\<close>. The \<^verbatim>\<open>print\<close> calls, the thread handles and the
    two background loops are left out.
  \<^item> Field names carry a prefix for their class (\<open>lsa_\<close>, \<open>nbr_\<close>, \<open>if_\<close>, \<open>link_\<close>,
    \<open>rt_\<close>; \<open>i_\<close>, \<open>lsp_\<close>, \<open>inbr_\<close>, \<open>irt_\<close> for the ISIS classes), since the classes of the
    source share field names. A method \<^verbatim>\<open>_name\<close> of the source is \<open>name\<close> here.
\<close>

datatype py_error = KeyError | RuntimeError | ValueError

definition bind_err :: "'e + 'a \<Rightarrow> ('a \<Rightarrow> 'e + 'b) \<Rightarrow> 'e + 'b" where
  "bind_err m f = (case m of Inl e \<Rightarrow> Inl e | Inr x \<Rightarrow> f x)"

type_synonym timestamp = real

subsection \<open>Data model\<close>

datatype OSPFState = DOWN | INIT | TWO_WAY | EXSTART | EXCHANGE | LOADING | FULL

text \<open>
  A link of a record is a Python \<^verbatim>\<open>dict\<close>. The code reads the keys \<^verbatim>\<open>'cost'\<close> and
  \<^verbatim>\<open>'neighbor_router_id'\<close> (\<^verbatim>\<open>'neighbor_system_id'\<close> in the ISIS router) with \<^verbatim>\<open>get\<close>, so these
  may be absent.
\<close>

record link =
  link_interface :: string
  link_ip :: string
  link_cost :: "int option"
  neighbor_router_id :: "string option"
  neighbor_system_id :: "string option"

record LSA =
  lsa_router_id :: string
  lsa_sequence :: int
  lsa_links :: "link list"
  lsa_age :: int

text \<open>
  A distance of the shortest-path computation is an \<^verbatim>\<open>int\<close>, or the \<^verbatim>\<open>float('inf')\<close> that
  \<^verbatim>\<open>distances.get(current, float('inf'))\<close> falls back to.
\<close>

datatype distance = Finite int | Infinite

fun add_cost :: "distance \<Rightarrow> int \<Rightarrow> distance" where
  "add_cost (Finite d) c = Finite (d + c)"
| "add_cost Infinite c = Infinite"

fun dist_less :: "distance \<Rightarrow> distance \<Rightarrow> bool" where
  "dist_less (Finite a) (Finite b) = (a < b)"
| "dist_less (Finite a) Infinite = True"
| "dist_less Infinite d = False"

record Route =
  rt_prefix :: string
  rt_next_hop :: string
  rt_cost :: distance
  rt_interface :: string

record neighbor_info =
  nbr_state :: OSPFState
  nbr_last_hello :: timestamp
  nbr_interface :: string

record interface_info =
  if_ip :: string
  if_mask :: string
  if_cost :: int
  if_neighbors :: "string set"

record OSPFRouter =
  router_id :: string
  area_id :: string
  hello_interval :: int
  dead_interval :: int
  neighbors :: "(string \<times> neighbor_info) list"
  lsdb :: "(string \<times> LSA) list"
  routing_table :: "(string \<times> Route) list"
  interfaces :: "(string \<times> interface_info) list"
  running :: bool

text \<open>
  The loop body of \<^verbatim>\<open>_flood_lsa\<close> is \<^verbatim>\<open>pass\<close>, with the comment "In real implementation,
  send packet". So that the selection the loop makes can be stated, the model returns the
  packets that would be sent: the pairs of a selected neighbour and the record.
\<close>

type_synonym packet = "string \<times> LSA"

subsection \<open>The OSPF router\<close>

definition self_link :: "string \<times> interface_info \<Rightarrow> link" where
  "self_link p = \<lparr>link_interface = fst p, link_ip = if_ip (snd p),
     link_cost = Some (if_cost (snd p)), neighbor_router_id = None,
     neighbor_system_id = None\<rparr>"

definition create_self_lsa :: "OSPFRouter \<Rightarrow> OSPFRouter" where
  "create_self_lsa st =
     st\<lparr>lsdb := AList.update (router_id st)
        \<lparr>lsa_router_id = router_id st, lsa_sequence = 0,
         lsa_links = map self_link (interfaces st), lsa_age = 0\<rparr> (lsdb st)\<rparr>"

definition OSPFRouter_init :: "string \<Rightarrow> string \<Rightarrow> OSPFRouter" where
  "OSPFRouter_init rid area =
     create_self_lsa \<lparr>router_id = rid, area_id = area, hello_interval = 10,
       dead_interval = 40, neighbors = [], lsdb = [], routing_table = [],
       interfaces = [], running = False\<rparr>"

definition add_interface :: "OSPFRouter \<Rightarrow> string \<Rightarrow> string \<Rightarrow> string \<Rightarrow> int \<Rightarrow> OSPFRouter" where
  "add_interface st iface ip netmask cost =
     create_self_lsa (st\<lparr>interfaces := AList.update iface
        \<lparr>if_ip = ip, if_mask = netmask, if_cost = cost, if_neighbors = {}\<rparr> (interfaces st)\<rparr>)"

definition flood_lsa :: "OSPFRouter \<Rightarrow> LSA \<Rightarrow> string \<Rightarrow> packet list" where
  "flood_lsa st lsa except_router =
     map (\<lambda>p. (fst p, lsa))
       (filter (\<lambda>p. fst p \<noteq> except_router \<and> nbr_state (snd p) = FULL) (neighbors st))"

definition receive_lsa :: "OSPFRouter \<Rightarrow> LSA \<Rightarrow> string \<Rightarrow> OSPFRouter \<times> packet list" where
  "receive_lsa st lsa from_router =
     (case map_of (lsdb st) (lsa_router_id lsa) of
        None \<Rightarrow>
          (let st' = st\<lparr>lsdb := AList.update (lsa_router_id lsa) lsa (lsdb st)\<rparr>
           in (st', flood_lsa st' lsa from_router))
      | Some stored \<Rightarrow>
          if lsa_sequence lsa > lsa_sequence stored then
            (let st' = st\<lparr>lsdb := AList.update (lsa_router_id lsa) lsa (lsdb st)\<rparr>
             in (st', flood_lsa st' lsa from_router))
          else (st, []))"

text \<open>
  \<^verbatim>\<open>_send_lsas\<close> iterates over \<^verbatim>\<open>self.lsdb.items()\<close> and calls \<^verbatim>\<open>self._receive_lsa\<close>, on the
  router itself, in the body. The iterator reads the live dictionary, and raises
  \<^verbatim>\<open>RuntimeError\<close> at its next step when the body has changed the size of the dictionary.
  The first argument counts the entries still to visit, the second is the position.
\<close>

primrec send_lsas_loop ::
  "nat \<Rightarrow> nat \<Rightarrow> OSPFRouter \<Rightarrow> string \<Rightarrow> py_error + (OSPFRouter \<times> packet list)" where
  "send_lsas_loop 0 i st neighbor_id = Inr (st, [])"
| "send_lsas_loop (Suc n) i st neighbor_id =
     (let r = receive_lsa st (snd (lsdb st ! i)) neighbor_id in
      if length (lsdb (fst r)) \<noteq> length (lsdb st) then Inl RuntimeError
      else bind_err (send_lsas_loop n (Suc i) (fst r) neighbor_id)
             (\<lambda>q. Inr (fst q, snd r @ snd q)))"

definition send_lsas :: "OSPFRouter \<Rightarrow> string \<Rightarrow> py_error + (OSPFRouter \<times> packet list)" where
  "send_lsas st neighbor_id = send_lsas_loop (length (lsdb st)) 0 st neighbor_id"

text \<open>\<^verbatim>\<open>self.neighbors[neighbor_id]['state']\<close>, read and assigned; both raise on a missing key.\<close>

definition get_state :: "OSPFRouter \<Rightarrow> string \<Rightarrow> py_error + OSPFState" where
  "get_state st neighbor_id =
     (case map_of (neighbors st) neighbor_id of
        None \<Rightarrow> Inl KeyError | Some info \<Rightarrow> Inr (nbr_state info))"

definition set_state :: "OSPFRouter \<Rightarrow> string \<Rightarrow> OSPFState \<Rightarrow> py_error + OSPFRouter" where
  "set_state st neighbor_id s =
     (case map_of (neighbors st) neighbor_id of
        None \<Rightarrow> Inl KeyError
      | Some info \<Rightarrow>
          Inr (st\<lparr>neighbors := AList.update neighbor_id (info\<lparr>nbr_state := s\<rparr>) (neighbors st)\<rparr>))"

definition exchange_lsas :: "OSPFRouter \<Rightarrow> string \<Rightarrow> py_error + (OSPFRouter \<times> packet list)" where
  "exchange_lsas st neighbor_id =
     bind_err (get_state st neighbor_id) (\<lambda>s.
       if s = TWO_WAY then
         bind_err (set_state st neighbor_id EXSTART) (\<lambda>st1.
         bind_err (send_lsas st1 neighbor_id) (\<lambda>r.
         bind_err (set_state (fst r) neighbor_id EXCHANGE) (\<lambda>st2.
         bind_err (set_state st2 neighbor_id FULL) (\<lambda>st3.
         Inr (st3, snd r)))))
       else Inr (st, []))"

definition receive_hello ::
  "OSPFRouter \<Rightarrow> string \<Rightarrow> string \<Rightarrow> timestamp \<Rightarrow> py_error + (OSPFRouter \<times> packet list)" where
  "receive_hello st neighbor_id iface now =
     (let st1 =
        (case map_of (neighbors st) neighbor_id of
           None \<Rightarrow> st\<lparr>neighbors := AList.update neighbor_id
                      \<lparr>nbr_state = INIT, nbr_last_hello = now, nbr_interface = iface\<rparr>
                      (neighbors st)\<rparr>
         | Some info \<Rightarrow> st\<lparr>neighbors := AList.update neighbor_id
                      (info\<lparr>nbr_last_hello := now\<rparr>) (neighbors st)\<rparr>)
      in bind_err (get_state st1 neighbor_id) (\<lambda>s.
           if s = INIT then
             bind_err (set_state st1 neighbor_id TWO_WAY) (\<lambda>st2.
               exchange_lsas st2 neighbor_id)
           else Inr (st1, [])))"

subsection \<open>Shortest paths\<close>

text \<open>
  The graph of \<^verbatim>\<open>calculate_spf\<close>: for every record of the database, in its order, the
  edges of the links that carry a non-empty neighbour identifier present in the database.
  The function \<open>nbr_of\<close> reads the neighbour key of a link (\<^verbatim>\<open>'neighbor_router_id'\<close> in the
  OSPF router, \<^verbatim>\<open>'neighbor_system_id'\<close> in the ISIS router, whose loops are the same text
  otherwise).
\<close>

definition link_edges ::
  "(link \<Rightarrow> string option) \<Rightarrow> string list \<Rightarrow> link list \<Rightarrow> (string \<times> int) list" where
  "link_edges nbr_of keys ls =
     concat (map (\<lambda>l. case nbr_of l of
                None \<Rightarrow> []
              | Some n \<Rightarrow>
                  if n \<noteq> [] \<and> n \<in> set keys
                  then [(n, case link_cost l of None \<Rightarrow> 10 | Some c \<Rightarrow> c)] else []) ls)"

definition build_graph ::
  "(link \<Rightarrow> string option) \<Rightarrow> (string \<times> link list) list \<Rightarrow> (string \<times> (string \<times> int) list) list" where
  "build_graph nbr_of db =
     fold (\<lambda>p g. AList.update (fst p) (link_edges nbr_of (map fst db) (snd p)) g) db []"

text \<open>
  \<^verbatim>\<open>min(candidates, key=candidates.get)\<close>: the first key, in the order of the dictionary, whose
  value no other value is less than.
\<close>

fun min_scan :: "string \<Rightarrow> distance \<Rightarrow> (string \<times> distance) list \<Rightarrow> string" where
  "min_scan best bv [] = best"
| "min_scan best bv (p # ps) =
     (if dist_less (snd p) bv then min_scan (fst p) (snd p) ps else min_scan best bv ps)"

text \<open>
  The inner loop over \<^verbatim>\<open>graph[current]\<close>. The set \<^verbatim>\<open>unvisited\<close> is a list of its members: the
  code tests membership and emptiness and removes a member, and never iterates over it.
\<close>

fun relax ::
  "string \<Rightarrow> string list \<Rightarrow> (string \<times> int) list \<Rightarrow>
   (string \<times> distance) list \<times> (string \<times> string) list \<Rightarrow>
   (string \<times> distance) list \<times> (string \<times> string) list" where
  "relax current unvisited [] dp = dp"
| "relax current unvisited (e # es) dp =
     (if fst e \<in> set unvisited then
        (let new_distance =
               add_cost (case map_of (fst dp) current of None \<Rightarrow> Infinite | Some d \<Rightarrow> d) (snd e)
         in if (case map_of (fst dp) (fst e) of None \<Rightarrow> True | Some d \<Rightarrow> dist_less new_distance d)
            then relax current unvisited es
                   (AList.update (fst e) new_distance (fst dp), AList.update (fst e) current (snd dp))
            else relax current unvisited es dp)
      else relax current unvisited es dp)"

lemma min_scan_mem: "min_scan best bv ps = best \<or> min_scan best bv ps \<in> fst ` set ps"
proof (induction ps arbitrary: best bv)
  case Nil
  show ?case by simp
next
  case (Cons p ps)
  from Cons [of "fst p" "snd p"] Cons [of best bv] show ?case by auto
qed

function dijkstra ::
  "(string \<times> (string \<times> int) list) list \<Rightarrow> string list \<Rightarrow>
   (string \<times> distance) list \<times> (string \<times> string) list \<Rightarrow>
   (string \<times> distance) list \<times> (string \<times> string) list" where
  "dijkstra graph unvisited dp =
     (if unvisited = [] then dp
      else
        (let candidates = filter (\<lambda>p. fst p \<in> set unvisited) (fst dp) in
         case candidates of
           [] \<Rightarrow> dp
         | c # cs \<Rightarrow>
             (let current = min_scan (fst c) (snd c) cs;
                  unvisited' = removeAll current unvisited
              in dijkstra graph unvisited'
                   (case map_of graph current of
                      None \<Rightarrow> dp
                    | Some edges \<Rightarrow> relax current unvisited' edges dp))))"
  by pat_completeness auto
termination
proof (relation "measure (\<lambda>(graph, unvisited, dp). length unvisited)", goal_cases)
  case 1
  show ?case by simp
next
  case (2 graph unvisited dp candidates c cs current unvisited')
  have eq: "filter (\<lambda>p. fst p \<in> set unvisited) (fst dp) = c # cs"
    using 2 by simp
  have "\<forall>p \<in> set (filter (\<lambda>p. fst p \<in> set unvisited) (fst dp)). fst p \<in> set unvisited"
    by simp
  then have "\<forall>p \<in> set (c # cs). fst p \<in> set unvisited"
    unfolding eq .
  then have "fst c \<in> set unvisited \<and> fst ` set cs \<subseteq> set unvisited"
    by auto
  with min_scan_mem [of "fst c" "snd c" cs] have "current \<in> set unvisited"
    using 2 by auto
  then have "length (removeAll current unvisited) < length unvisited"
    by (simp add: length_removeAll_less)
  with 2 show ?case by simp
qed

declare dijkstra.simps [simp del]

subsection \<open>The routing table\<close>

text \<open>
  The loop \<^verbatim>\<open>while current in previous\<close> of \<^verbatim>\<open>_find_next_hop\<close> and \<^verbatim>\<open>_get_path\<close>. It does not
  end on a cyclic \<open>previous\<close>: the result \<open>None\<close> is the loop that runs forever.
\<close>

partial_function (option) walk ::
  "(string \<times> string) list \<Rightarrow> string \<Rightarrow> string list \<Rightarrow> string list option" where
  "walk previous current path =
     (case map_of previous current of
        None \<Rightarrow> Some path
      | Some p \<Rightarrow> walk previous p (path @ [current]))"

declare walk.simps [code]

text \<open>
  \<^verbatim>\<open>_find_next_hop\<close> returns an \<^verbatim>\<open>Optional[str]\<close>, the inner option; \<open>rid\<close> is
  \<^verbatim>\<open>self.router_id\<close> (\<^verbatim>\<open>self.system_id\<close> in the ISIS router, where the method is the same text).
\<close>

definition find_next_hop ::
  "string \<Rightarrow> string \<Rightarrow> (string \<times> string) list \<Rightarrow> string option option" where
  "find_next_hop rid dest previous =
     (case map_of previous dest of
        None \<Rightarrow> Some None
      | Some p \<Rightarrow>
          (case walk previous dest [] of
             None \<Rightarrow> None
           | Some path0 \<Rightarrow>
               (let path = path0 @ [rid] in
                if length path \<ge> 2 then Some (Some (path ! (length path - 2)))
                else Some None)))"

definition get_path ::
  "string \<Rightarrow> string \<Rightarrow> (string \<times> string) list \<Rightarrow> string list option" where
  "get_path rid dest previous =
     (case walk previous dest [] of
        None \<Rightarrow> None
      | Some path0 \<Rightarrow> Some (rev (path0 @ [rid])))"

definition get_interface_to_neighbor ::
  "(string \<times> interface_info) list \<Rightarrow> string \<Rightarrow> string option" where
  "get_interface_to_neighbor ifs neighbor_id =
     (case find (\<lambda>p. neighbor_id \<in> if_neighbors (snd p)) ifs of
        None \<Rightarrow> None
      | Some p \<Rightarrow> Some (fst p))"

text \<open>
  The body of the loop of \<^verbatim>\<open>_build_routing_table\<close> for one entry of \<^verbatim>\<open>distances\<close>: \<open>None\<close>
  when a path loop does not end, \<open>Some None\<close> when the entry adds no route, and the route
  otherwise. A string, or \<^verbatim>\<open>None\<close>, is false in a condition when it is \<^verbatim>\<open>None\<close> or empty.
\<close>

definition route_entry ::
  "OSPFRouter \<Rightarrow> string \<times> distance \<Rightarrow> (string \<times> string) list \<Rightarrow> Route option option" where
  "route_entry st d previous =
     (if fst d = router_id st then Some None
      else
        (case find_next_hop (router_id st) (fst d) previous of
           None \<Rightarrow> None
         | Some None \<Rightarrow> Some None
         | Some (Some next_hop) \<Rightarrow>
             if next_hop \<noteq> [] \<and> next_hop \<in> set (map fst (neighbors st)) then
               (case get_interface_to_neighbor (interfaces st) next_hop of
                  None \<Rightarrow> Some None
                | Some iface \<Rightarrow>
                    if iface \<noteq> [] then
                      (case get_path (router_id st) (fst d) previous of
                         None \<Rightarrow> None
                       | Some path \<Rightarrow>
                           Some (Some \<lparr>rt_prefix = fst d @ ''/32'', rt_next_hop = next_hop,
                                        rt_cost = snd d, rt_interface = iface\<rparr>))
                    else Some None)
             else Some None))"

fun build_routes ::
  "OSPFRouter \<Rightarrow> (string \<times> distance) list \<Rightarrow> (string \<times> string) list \<Rightarrow> OSPFRouter option" where
  "build_routes st [] previous = Some st"
| "build_routes st (d # ds) previous =
     (case route_entry st d previous of
        None \<Rightarrow> None
      | Some None \<Rightarrow> build_routes st ds previous
      | Some (Some r) \<Rightarrow>
          build_routes (st\<lparr>routing_table := AList.update (rt_prefix r) r (routing_table st)\<rparr>)
            ds previous)"

definition build_routing_table ::
  "OSPFRouter \<Rightarrow> (string \<times> distance) list \<Rightarrow> (string \<times> string) list \<Rightarrow> OSPFRouter option" where
  "build_routing_table st distances previous =
     build_routes (st\<lparr>routing_table := []\<rparr>) distances previous"

definition spf_tree :: "OSPFRouter \<Rightarrow> (string \<times> distance) list \<times> (string \<times> string) list" where
  "spf_tree st =
     dijkstra (build_graph neighbor_router_id (map (\<lambda>p. (fst p, lsa_links (snd p))) (lsdb st)))
       (map fst (lsdb st)) ([(router_id st, Finite 0)], [])"

definition calculate_spf :: "OSPFRouter \<Rightarrow> OSPFRouter option" where
  "calculate_spf st =
     (if length (lsdb st) < 2 then Some st
      else build_routing_table st (fst (spf_tree st)) (snd (spf_tree st)))"

subsection \<open>The network of OSPF routers\<close>

text \<open>
  \<^verbatim>\<open>OSPFNetwork\<close> holds the router objects in a dictionary. A statement on
  \<^verbatim>\<open>self.routers[key]\<close> is \<open>on_router key\<close>: it reads the router under the key, raising on a
  missing key, and stores the changed router back.
\<close>

record OSPFNetwork =
  routers :: "(string \<times> OSPFRouter) list"
  links :: "(string \<times> string \<times> string \<times> string) list"

definition OSPFNetwork_init :: OSPFNetwork where
  "OSPFNetwork_init = \<lparr>routers = [], links = []\<rparr>"

definition add_router :: "OSPFNetwork \<Rightarrow> string \<Rightarrow> string \<Rightarrow> OSPFNetwork" where
  "add_router net rid area =
     net\<lparr>routers := AList.update rid (OSPFRouter_init rid area) (routers net)\<rparr>"

definition on_router ::
  "string \<Rightarrow> (OSPFRouter \<Rightarrow> py_error + OSPFRouter) \<Rightarrow> OSPFNetwork \<Rightarrow> py_error + OSPFNetwork" where
  "on_router key f net =
     (case map_of (routers net) key of
        None \<Rightarrow> Inl KeyError
      | Some r \<Rightarrow> bind_err (f r) (\<lambda>r'. Inr (net\<lparr>routers := AList.update key r' (routers net)\<rparr>)))"

text \<open>\<^verbatim>\<open>router.lsdb[router.router_id].links.append(l)\<close>\<close>

definition append_self_link :: "link \<Rightarrow> OSPFRouter \<Rightarrow> py_error + OSPFRouter" where
  "append_self_link l st =
     (case map_of (lsdb st) (router_id st) of
        None \<Rightarrow> Inl KeyError
      | Some lsa \<Rightarrow>
          Inr (st\<lparr>lsdb := AList.update (router_id st)
                 (lsa\<lparr>lsa_links := lsa_links lsa @ [l]\<rparr>) (lsdb st)\<rparr>))"

text \<open>\<^verbatim>\<open>router.interfaces[iface]['neighbors'].add(n)\<close>\<close>

definition add_interface_neighbor :: "string \<Rightarrow> string \<Rightarrow> OSPFRouter \<Rightarrow> py_error + OSPFRouter" where
  "add_interface_neighbor iface n st =
     (case map_of (interfaces st) iface of
        None \<Rightarrow> Inl KeyError
      | Some info \<Rightarrow>
          Inr (st\<lparr>interfaces := AList.update iface
                 (info\<lparr>if_neighbors := insert n (if_neighbors info)\<rparr>) (interfaces st)\<rparr>))"

definition connect_routers ::
  "OSPFNetwork \<Rightarrow> string \<Rightarrow> string \<Rightarrow> string \<Rightarrow> string \<Rightarrow> string \<Rightarrow> string \<Rightarrow> int \<Rightarrow>
   timestamp \<Rightarrow> py_error + OSPFNetwork" where
  "connect_routers net router1_id router2_id interface1 interface2 ip1 ip2 cost now =
     (if router1_id \<notin> set (map fst (routers net)) \<or> router2_id \<notin> set (map fst (routers net))
      then Inl ValueError
      else
        bind_err (on_router router1_id
          (\<lambda>r. Inr (add_interface r interface1 ip1 ''255.255.255.0'' cost)) net) (\<lambda>net.
        bind_err (on_router router2_id
          (\<lambda>r. Inr (add_interface r interface2 ip2 ''255.255.255.0'' cost)) net) (\<lambda>net.
        bind_err (Inr (net\<lparr>links := links net @
          [(router1_id, router2_id, interface1, interface2)]\<rparr>)) (\<lambda>net.
        bind_err (on_router router1_id
          (append_self_link \<lparr>link_interface = interface1, link_ip = ip1, link_cost = Some cost,
             neighbor_router_id = Some router2_id, neighbor_system_id = None\<rparr>) net) (\<lambda>net.
        bind_err (on_router router2_id
          (append_self_link \<lparr>link_interface = interface2, link_ip = ip2, link_cost = Some cost,
             neighbor_router_id = Some router1_id, neighbor_system_id = None\<rparr>) net) (\<lambda>net.
        bind_err (on_router router1_id
          (\<lambda>r. Inr (r\<lparr>neighbors := AList.update router2_id
             \<lparr>nbr_state = INIT, nbr_last_hello = now, nbr_interface = interface1\<rparr>
             (neighbors r)\<rparr>)) net) (\<lambda>net.
        bind_err (on_router router1_id (add_interface_neighbor interface1 router2_id) net) (\<lambda>net.
        bind_err (on_router router2_id
          (\<lambda>r. Inr (r\<lparr>neighbors := AList.update router1_id
             \<lparr>nbr_state = INIT, nbr_last_hello = now, nbr_interface = interface2\<rparr>
             (neighbors r)\<rparr>)) net) (\<lambda>net.
        bind_err (on_router router2_id (add_interface_neighbor interface2 router1_id) net) (\<lambda>net.
        bind_err (on_router router1_id
          (\<lambda>r. bind_err (receive_hello r router2_id interface1 now) (\<lambda>q. Inr (fst q))) net) (\<lambda>net.
        on_router router2_id
          (\<lambda>r. bind_err (receive_hello r router1_id interface2 now) (\<lambda>q. Inr (fst q))) net)))))))))))"

text \<open>
  The record exchange of \<^verbatim>\<open>demo.py\<close> (and of \<^verbatim>\<open>route_loop_demo.py\<close>, \<^verbatim>\<open>combined_demo.py\<close>):
  \<^verbatim>\<open>
  for router_id, router in network.routers.items():
      for neighbor_id in router.neighbors.keys():
          if neighbor_id in network.routers:
              neighbor_router = network.routers[neighbor_id]
              for lsa_router_id, lsa in neighbor_router.lsdb.items():
                  router.receive_lsa(lsa, neighbor_id)
  \<close>
  The innermost loop reads the live database of the neighbour and raises when its size
  changes, which the body can cause only when the neighbour is the router itself. The two
  outer dictionaries keep their keys during the loops.
\<close>

text \<open>\<^verbatim>\<open>network.routers[key].receive_lsa(lsa, from_router)\<close>; nothing is done with the packets.\<close>

definition deliver_lsa :: "OSPFNetwork \<Rightarrow> string \<Rightarrow> LSA \<Rightarrow> string \<Rightarrow> py_error + OSPFNetwork" where
  "deliver_lsa net key lsa from_router =
     on_router key (\<lambda>r. Inr (fst (receive_lsa r lsa from_router))) net"

primrec exchange_records ::
  "nat \<Rightarrow> nat \<Rightarrow> string \<Rightarrow> string \<Rightarrow> OSPFNetwork \<Rightarrow> py_error + OSPFNetwork" where
  "exchange_records 0 i key neighbor_id net = Inr net"
| "exchange_records (Suc n) i key neighbor_id net =
     (case map_of (routers net) neighbor_id of
        None \<Rightarrow> Inl KeyError
      | Some neighbor_router \<Rightarrow>
          bind_err (deliver_lsa net key (snd (lsdb neighbor_router ! i)) neighbor_id)
          (\<lambda>net'.
             case map_of (routers net') neighbor_id of
               None \<Rightarrow> Inl KeyError
             | Some neighbor_router' \<Rightarrow>
                 if length (lsdb neighbor_router') \<noteq> length (lsdb neighbor_router)
                 then Inl RuntimeError
                 else exchange_records n (Suc i) key neighbor_id net'))"

fun exchange_neighbors :: "string list \<Rightarrow> string \<Rightarrow> OSPFNetwork \<Rightarrow> py_error + OSPFNetwork" where
  "exchange_neighbors [] key net = Inr net"
| "exchange_neighbors (neighbor_id # ns) key net =
     (case map_of (routers net) neighbor_id of
        None \<Rightarrow> exchange_neighbors ns key net
      | Some neighbor_router \<Rightarrow>
          bind_err (exchange_records (length (lsdb neighbor_router)) 0 key neighbor_id net)
            (exchange_neighbors ns key))"

fun exchange_routers :: "string list \<Rightarrow> OSPFNetwork \<Rightarrow> py_error + OSPFNetwork" where
  "exchange_routers [] net = Inr net"
| "exchange_routers (key # ks) net =
     (case map_of (routers net) key of
        None \<Rightarrow> Inl KeyError
      | Some r \<Rightarrow>
          bind_err (exchange_neighbors (map fst (neighbors r)) key net) (exchange_routers ks))"

definition exchange_all :: "OSPFNetwork \<Rightarrow> py_error + OSPFNetwork" where
  "exchange_all net = exchange_routers (map fst (routers net)) net"

subsection \<open>The ISIS router\<close>

datatype ISISLevel = LEVEL_1 | LEVEL_2 | LEVEL_1_2

datatype ISISState = ISIS_DOWN | ISIS_INIT | ISIS_UP

record LSP =
  lsp_system_id :: string
  lsp_sequence :: int
  lsp_links :: "link list"
  lsp_age :: int
  lsp_level :: ISISLevel

record ISISRoute =
  irt_prefix :: string
  irt_next_hop :: string
  irt_cost :: distance
  irt_interface :: string
  irt_level :: ISISLevel

record isis_neighbor_info =
  inbr_state :: ISISState
  inbr_last_hello :: timestamp
  inbr_interface :: string
  inbr_level :: ISISLevel

record ISISRouter =
  system_id :: string
  level :: ISISLevel
  i_hello_interval :: int
  hold_time :: int
  i_neighbors :: "(string \<times> isis_neighbor_info) list"
  i_lsdb :: "(string \<times> LSP) list"
  i_routing_table :: "(string \<times> ISISRoute) list"
  i_interfaces :: "(string \<times> interface_info) list"
  i_running :: bool

type_synonym isis_packet = "string \<times> LSP"

definition isis_create_self_lsp :: "ISISRouter \<Rightarrow> ISISRouter" where
  "isis_create_self_lsp st =
     st\<lparr>i_lsdb := AList.update (system_id st)
        \<lparr>lsp_system_id = system_id st, lsp_sequence = 0,
         lsp_links = map self_link (i_interfaces st), lsp_age = 0, lsp_level = level st\<rparr>
        (i_lsdb st)\<rparr>"

definition ISISRouter_init :: "string \<Rightarrow> ISISLevel \<Rightarrow> ISISRouter" where
  "ISISRouter_init sid lv =
     isis_create_self_lsp \<lparr>system_id = sid, level = lv, i_hello_interval = 10,
       hold_time = 30, i_neighbors = [], i_lsdb = [], i_routing_table = [],
       i_interfaces = [], i_running = False\<rparr>"

definition isis_add_interface ::
  "ISISRouter \<Rightarrow> string \<Rightarrow> string \<Rightarrow> string \<Rightarrow> int \<Rightarrow> ISISRouter" where
  "isis_add_interface st iface ip netmask cost =
     isis_create_self_lsp (st\<lparr>i_interfaces := AList.update iface
        \<lparr>if_ip = ip, if_mask = netmask, if_cost = cost, if_neighbors = {}\<rparr>
        (i_interfaces st)\<rparr>)"

definition levels_compatible :: "ISISLevel \<Rightarrow> ISISLevel \<Rightarrow> bool" where
  "levels_compatible level1 level2 =
     (if level1 = LEVEL_1_2 \<or> level2 = LEVEL_1_2 then True else level1 = level2)"

definition isis_flood_lsp :: "ISISRouter \<Rightarrow> LSP \<Rightarrow> string \<Rightarrow> isis_packet list" where
  "isis_flood_lsp st lsp except_router =
     map (\<lambda>p. (fst p, lsp))
       (filter (\<lambda>p. fst p \<noteq> except_router \<and> inbr_state (snd p) = ISIS_UP) (i_neighbors st))"

definition isis_receive_lsp ::
  "ISISRouter \<Rightarrow> LSP \<Rightarrow> string \<Rightarrow> ISISRouter \<times> isis_packet list" where
  "isis_receive_lsp st lsp from_router =
     (case map_of (i_lsdb st) (lsp_system_id lsp) of
        None \<Rightarrow>
          (let st' = st\<lparr>i_lsdb := AList.update (lsp_system_id lsp) lsp (i_lsdb st)\<rparr>
           in (st', isis_flood_lsp st' lsp from_router))
      | Some stored \<Rightarrow>
          if lsp_sequence lsp > lsp_sequence stored then
            (let st' = st\<lparr>i_lsdb := AList.update (lsp_system_id lsp) lsp (i_lsdb st)\<rparr>
             in (st', isis_flood_lsp st' lsp from_router))
          else (st, []))"

primrec isis_send_lsps_loop ::
  "nat \<Rightarrow> nat \<Rightarrow> ISISRouter \<Rightarrow> string \<Rightarrow> py_error + (ISISRouter \<times> isis_packet list)" where
  "isis_send_lsps_loop 0 i st neighbor_id = Inr (st, [])"
| "isis_send_lsps_loop (Suc n) i st neighbor_id =
     (let r = isis_receive_lsp st (snd (i_lsdb st ! i)) neighbor_id in
      if length (i_lsdb (fst r)) \<noteq> length (i_lsdb st) then Inl RuntimeError
      else bind_err (isis_send_lsps_loop n (Suc i) (fst r) neighbor_id)
             (\<lambda>q. Inr (fst q, snd r @ snd q)))"

definition isis_send_lsps ::
  "ISISRouter \<Rightarrow> string \<Rightarrow> py_error + (ISISRouter \<times> isis_packet list)" where
  "isis_send_lsps st neighbor_id = isis_send_lsps_loop (length (i_lsdb st)) 0 st neighbor_id"

definition isis_exchange_lsps ::
  "ISISRouter \<Rightarrow> string \<Rightarrow> py_error + (ISISRouter \<times> isis_packet list)" where
  "isis_exchange_lsps st neighbor_id = isis_send_lsps st neighbor_id"

definition isis_receive_hello ::
  "ISISRouter \<Rightarrow> string \<Rightarrow> string \<Rightarrow> ISISLevel \<Rightarrow> timestamp \<Rightarrow>
   py_error + (ISISRouter \<times> isis_packet list)" where
  "isis_receive_hello st neighbor_id iface neighbor_level now =
     (let st1 =
        (case map_of (i_neighbors st) neighbor_id of
           None \<Rightarrow> st\<lparr>i_neighbors := AList.update neighbor_id
                      \<lparr>inbr_state = ISIS_INIT, inbr_last_hello = now, inbr_interface = iface,
                       inbr_level = neighbor_level\<rparr> (i_neighbors st)\<rparr>
         | Some info \<Rightarrow> st\<lparr>i_neighbors := AList.update neighbor_id
                      (info\<lparr>inbr_last_hello := now\<rparr>) (i_neighbors st)\<rparr>)
      in case map_of (i_neighbors st1) neighbor_id of
           None \<Rightarrow> Inl KeyError
         | Some info \<Rightarrow>
             if inbr_state info = ISIS_INIT then
               if levels_compatible (level st1) neighbor_level then
                 isis_exchange_lsps
                   (st1\<lparr>i_neighbors := AList.update neighbor_id (info\<lparr>inbr_state := ISIS_UP\<rparr>)
                      (i_neighbors st1)\<rparr>) neighbor_id
               else Inr (st1, [])
             else Inr (st1, []))"

definition isis_route_entry ::
  "ISISRouter \<Rightarrow> string \<times> distance \<Rightarrow> (string \<times> string) list \<Rightarrow> ISISRoute option option" where
  "isis_route_entry st d previous =
     (if fst d = system_id st then Some None
      else
        (case find_next_hop (system_id st) (fst d) previous of
           None \<Rightarrow> None
         | Some None \<Rightarrow> Some None
         | Some (Some next_hop) \<Rightarrow>
             if next_hop \<noteq> [] \<and> next_hop \<in> set (map fst (i_neighbors st)) then
               (case get_interface_to_neighbor (i_interfaces st) next_hop of
                  None \<Rightarrow> Some None
                | Some iface \<Rightarrow>
                    if iface \<noteq> [] then
                      Some (Some \<lparr>irt_prefix = fst d @ ''/32'', irt_next_hop = next_hop,
                                   irt_cost = snd d, irt_interface = iface,
                                   irt_level = level st\<rparr>)
                    else Some None)
             else Some None))"

fun isis_build_routes ::
  "ISISRouter \<Rightarrow> (string \<times> distance) list \<Rightarrow> (string \<times> string) list \<Rightarrow> ISISRouter option" where
  "isis_build_routes st [] previous = Some st"
| "isis_build_routes st (d # ds) previous =
     (case isis_route_entry st d previous of
        None \<Rightarrow> None
      | Some None \<Rightarrow> isis_build_routes st ds previous
      | Some (Some r) \<Rightarrow>
          isis_build_routes
            (st\<lparr>i_routing_table := AList.update (irt_prefix r) r (i_routing_table st)\<rparr>)
            ds previous)"

definition isis_build_routing_table ::
  "ISISRouter \<Rightarrow> (string \<times> distance) list \<Rightarrow> (string \<times> string) list \<Rightarrow> ISISRouter option" where
  "isis_build_routing_table st distances previous =
     isis_build_routes (st\<lparr>i_routing_table := []\<rparr>) distances previous"

definition isis_spf_tree ::
  "ISISRouter \<Rightarrow> (string \<times> distance) list \<times> (string \<times> string) list" where
  "isis_spf_tree st =
     dijkstra (build_graph neighbor_system_id (map (\<lambda>p. (fst p, lsp_links (snd p))) (i_lsdb st)))
       (map fst (i_lsdb st)) ([(system_id st, Finite 0)], [])"

definition isis_calculate_spf :: "ISISRouter \<Rightarrow> ISISRouter option" where
  "isis_calculate_spf st =
     (if length (i_lsdb st) < 2 then Some st
      else isis_build_routing_table st (fst (isis_spf_tree st)) (snd (isis_spf_tree st)))"

section \<open>Properties\<close>

subsection \<open>Example states\<close>

definition example_router :: OSPFRouter where
  "example_router = OSPFRouter_init ''A'' ''0.0.0.0''"

definition example_lsa :: "string \<Rightarrow> int \<Rightarrow> LSA" where
  "example_lsa origin s =
     \<lparr>lsa_router_id = origin, lsa_sequence = s, lsa_links = [], lsa_age = 0\<rparr>"

definition example_isis_router :: ISISRouter where
  "example_isis_router = ISISRouter_init ''0000.0000.0001'' LEVEL_1"

definition example_lsp :: "string \<Rightarrow> int \<Rightarrow> LSP" where
  "example_lsp origin s =
     \<lparr>lsp_system_id = origin, lsp_sequence = s, lsp_links = [], lsp_age = 0,
      lsp_level = LEVEL_1\<rparr>"

lemmas ex_defs = example_router_def example_lsa_def example_isis_router_def example_lsp_def
  OSPFRouter_init_def create_self_lsa_def ISISRouter_init_def isis_create_self_lsp_def

subsection \<open>Acceptance of a received record\<close>

text \<open>
  Claim C1. For a call of \<^verbatim>\<open>receive_lsa\<close> (\<^verbatim>\<open>receive_lsp\<close>) with a record \<open>r\<close> of origin \<open>O\<close>:
  when \<open>O\<close> is absent from the database, \<open>r\<close> is stored under \<open>O\<close>; when the stored record of
  \<open>O\<close> has a strictly smaller sequence number, \<open>r\<close> replaces it; otherwise the whole router
  state is unchanged and no packet is flooded. The function is total: it raises nothing. A
  second delivery of the same record changes nothing and floods nothing, whoever sends it.
\<close>

theorem receive_record_acceptance:
  "(map_of (lsdb st) (lsa_router_id r) = None \<longrightarrow>
      map_of (lsdb (fst (receive_lsa st r f))) = (map_of (lsdb st))(lsa_router_id r \<mapsto> r)) \<and>
   (\<forall>old. map_of (lsdb st) (lsa_router_id r) = Some old \<and> lsa_sequence old < lsa_sequence r \<longrightarrow>
      map_of (lsdb (fst (receive_lsa st r f))) = (map_of (lsdb st))(lsa_router_id r \<mapsto> r)) \<and>
   (\<forall>old. map_of (lsdb st) (lsa_router_id r) = Some old \<and> \<not> lsa_sequence old < lsa_sequence r \<longrightarrow>
      receive_lsa st r f = (st, [])) \<and>
   receive_lsa (fst (receive_lsa st r f)) r f' = (fst (receive_lsa st r f), []) \<and>
   (map_of (i_lsdb ist) (lsp_system_id p) = None \<longrightarrow>
      map_of (i_lsdb (fst (isis_receive_lsp ist p f))) = (map_of (i_lsdb ist))(lsp_system_id p \<mapsto> p)) \<and>
   (\<forall>old. map_of (i_lsdb ist) (lsp_system_id p) = Some old \<and> lsp_sequence old < lsp_sequence p \<longrightarrow>
      map_of (i_lsdb (fst (isis_receive_lsp ist p f))) = (map_of (i_lsdb ist))(lsp_system_id p \<mapsto> p)) \<and>
   (\<forall>old. map_of (i_lsdb ist) (lsp_system_id p) = Some old \<and> \<not> lsp_sequence old < lsp_sequence p \<longrightarrow>
      isis_receive_lsp ist p f = (ist, [])) \<and>
   isis_receive_lsp (fst (isis_receive_lsp ist p f)) p f' = (fst (isis_receive_lsp ist p f), [])"
  by (auto simp add: receive_lsa_def isis_receive_lsp_def Let_def update_conv' split: option.splits)

theorem receive_record_acceptance_witness:
  "map_of (lsdb (fst (receive_lsa example_router (example_lsa ''B'' 1) ''B''))) ''B''
     = Some (example_lsa ''B'' 1) \<and>
   map_of (lsdb (fst (receive_lsa (fst (receive_lsa example_router (example_lsa ''B'' 1) ''B''))
     (example_lsa ''B'' 2) ''B''))) ''B'' = Some (example_lsa ''B'' 2) \<and>
   receive_lsa (fst (receive_lsa example_router (example_lsa ''B'' 1) ''B''))
     (example_lsa ''B'' 0) ''C'' = (fst (receive_lsa example_router (example_lsa ''B'' 1) ''B''), []) \<and>
   map_of (i_lsdb (fst (isis_receive_lsp example_isis_router (example_lsp ''0000.0000.0002'' 1)
     ''0000.0000.0002''))) ''0000.0000.0002'' = Some (example_lsp ''0000.0000.0002'' 1)"
proof -
  let ?st1 = "fst (receive_lsa example_router (example_lsa ''B'' 1) ''B'')"
  have absent: "map_of (lsdb example_router) (lsa_router_id (example_lsa ''B'' 1)) = None"
    by (simp add: ex_defs)
  have stored: "map_of (lsdb ?st1) (lsa_router_id (example_lsa ''B'' 2)) = Some (example_lsa ''B'' 1)"
    by (simp add: ex_defs receive_lsa_def Let_def)
  have iabsent: "map_of (i_lsdb example_isis_router)
      (lsp_system_id (example_lsp ''0000.0000.0002'' 1)) = None"
    by (simp add: ex_defs)
  have a: "map_of (lsdb ?st1) ''B'' = Some (example_lsa ''B'' 1)"
    using receive_record_acceptance [of example_router "example_lsa ''B'' 1" "''B''"] absent
    by (simp add: example_lsa_def)
  have b: "map_of (lsdb (fst (receive_lsa ?st1 (example_lsa ''B'' 2) ''B''))) ''B''
      = Some (example_lsa ''B'' 2)"
    using receive_record_acceptance [of ?st1 "example_lsa ''B'' 2" "''B''"] stored
    by (simp add: example_lsa_def)
  have c: "receive_lsa ?st1 (example_lsa ''B'' 0) ''C'' = (?st1, [])"
    using receive_record_acceptance [of ?st1 "example_lsa ''B'' 0" "''C''"] stored
    by (simp add: example_lsa_def)
  have d: "map_of (i_lsdb (fst (isis_receive_lsp example_isis_router
      (example_lsp ''0000.0000.0002'' 1) ''0000.0000.0002''))) ''0000.0000.0002''
      = Some (example_lsp ''0000.0000.0002'' 1)"
    using receive_record_acceptance [of _ _ "''0000.0000.0002''" _ example_isis_router
      "example_lsp ''0000.0000.0002'' 1"] iabsent
    by (simp add: example_lsp_def)
  from a b c d show ?thesis by blast
qed

subsection \<open>The shortest-path computation below two origins\<close>

text \<open>
  Claim C7. With fewer than two origins in the database, \<^verbatim>\<open>calculate_spf\<close> returns with the
  router unchanged, in both routers: the routing table computed before stays as it is and
  no other field changes.
\<close>

theorem spf_noop_below_two_origins:
  "(length (lsdb st) < 2 \<longrightarrow> calculate_spf st = Some st) \<and>
   (length (i_lsdb ist) < 2 \<longrightarrow> isis_calculate_spf ist = Some ist)"
  by (simp add: calculate_spf_def isis_calculate_spf_def)

theorem spf_noop_below_two_origins_witness:
  "calculate_spf (example_router
      \<lparr>routing_table := [(''B/32'', \<lparr>rt_prefix = ''B/32'', rt_next_hop = ''B'',
          rt_cost = Finite 10, rt_interface = ''eth0''\<rparr>)]\<rparr>)
   = Some (example_router
      \<lparr>routing_table := [(''B/32'', \<lparr>rt_prefix = ''B/32'', rt_next_hop = ''B'',
          rt_cost = Finite 10, rt_interface = ''eth0''\<rparr>)]\<rparr>) \<and>
   isis_calculate_spf example_isis_router = Some example_isis_router"
  using spf_noop_below_two_origins
    [of "example_router
      \<lparr>routing_table := [(''B/32'', \<lparr>rt_prefix = ''B/32'', rt_next_hop = ''B'',
          rt_cost = Finite 10, rt_interface = ''eth0''\<rparr>)]\<rparr>"
     example_isis_router]
  by (simp add: ex_defs)

subsection \<open>A received record of the router's own origin\<close>

text \<open>What a database holds for an origin after one delivery.\<close>

lemma receive_lsa_lookup:
  "map_of (lsdb (fst (receive_lsa st r f))) origin =
     (if origin = lsa_router_id r then
        (case map_of (lsdb st) origin of
           None \<Rightarrow> Some r
         | Some old \<Rightarrow> if lsa_sequence old < lsa_sequence r then Some r else Some old)
      else map_of (lsdb st) origin)"
  by (simp add: receive_lsa_def Let_def update_conv' split: option.splits)

lemma isis_receive_lsp_lookup:
  "map_of (i_lsdb (fst (isis_receive_lsp st r f))) origin =
     (if origin = lsp_system_id r then
        (case map_of (i_lsdb st) origin of
           None \<Rightarrow> Some r
         | Some old \<Rightarrow> if lsp_sequence old < lsp_sequence r then Some r else Some old)
      else map_of (i_lsdb st) origin)"
  by (simp add: isis_receive_lsp_def Let_def update_conv' split: option.splits)

text \<open>
  A fresh router \<open>A\<close> holds its own record with sequence 0. A record of origin \<open>A\<close> with
  sequence 1, received from \<open>B\<close>, replaces it; likewise in the ISIS router.
\<close>

theorem self_record_replaced_counterexample:
  "map_of (lsdb example_router) ''A'' = Some (example_lsa ''A'' 0) \<and>
   map_of (lsdb (fst (receive_lsa example_router (example_lsa ''A'' 1) ''B''))) ''A''
     = Some (example_lsa ''A'' 1) \<and>
   map_of (i_lsdb example_isis_router) ''0000.0000.0001'' = Some (example_lsp ''0000.0000.0001'' 0) \<and>
   map_of (i_lsdb (fst (isis_receive_lsp example_isis_router (example_lsp ''0000.0000.0001'' 1)
     ''0000.0000.0002''))) ''0000.0000.0001'' = Some (example_lsp ''0000.0000.0001'' 1)"
  by (simp add: ex_defs receive_lsa_def isis_receive_lsp_def Let_def)

text \<open>
  Claim C9, as amended. The acceptance rule makes no exception for the router's own
  identifier: a received record whose origin is the router itself is stored when the
  database has no record of that origin, replaces the stored self record exactly when its
  sequence number is strictly greater, and is discarded otherwise. \<^verbatim>\<open>add_interface\<close> stores
  a self record rebuilt from the interface table, with sequence 0, without comparing
  sequence numbers.
\<close>

theorem self_record_acceptance:
  "(lsa_router_id r = router_id st \<longrightarrow>
      map_of (lsdb (fst (receive_lsa st r f))) (router_id st) =
        (case map_of (lsdb st) (router_id st) of
           None \<Rightarrow> Some r
         | Some own \<Rightarrow> if lsa_sequence own < lsa_sequence r then Some r else Some own)) \<and>
   map_of (lsdb (add_interface st iface ip netmask cost)) (router_id st) =
     Some \<lparr>lsa_router_id = router_id st, lsa_sequence = 0,
           lsa_links = map self_link (interfaces (add_interface st iface ip netmask cost)),
           lsa_age = 0\<rparr> \<and>
   (lsp_system_id p = system_id ist \<longrightarrow>
      map_of (i_lsdb (fst (isis_receive_lsp ist p f))) (system_id ist) =
        (case map_of (i_lsdb ist) (system_id ist) of
           None \<Rightarrow> Some p
         | Some own \<Rightarrow> if lsp_sequence own < lsp_sequence p then Some p else Some own)) \<and>
   map_of (i_lsdb (isis_add_interface ist iface ip netmask cost)) (system_id ist) =
     Some \<lparr>lsp_system_id = system_id ist, lsp_sequence = 0,
           lsp_links = map self_link (i_interfaces (isis_add_interface ist iface ip netmask cost)),
           lsp_age = 0, lsp_level = level ist\<rparr>"
  by (simp add: receive_lsa_lookup isis_receive_lsp_lookup add_interface_def create_self_lsa_def
      isis_add_interface_def isis_create_self_lsp_def update_conv')

theorem self_record_acceptance_witness:
  "map_of (lsdb (fst (receive_lsa example_router (example_lsa ''A'' 7) ''B''))) ''A''
     = Some (example_lsa ''A'' 7) \<and>
   map_option lsa_sequence (map_of (lsdb (add_interface
      (fst (receive_lsa example_router (example_lsa ''A'' 7) ''B''))
      ''eth0'' ''10.1.12.1'' ''255.255.255.0'' 10)) ''A'') = Some 0 \<and>
   map_of (i_lsdb (fst (isis_receive_lsp example_isis_router (example_lsp ''0000.0000.0001'' 7)
      ''0000.0000.0002''))) ''0000.0000.0001'' = Some (example_lsp ''0000.0000.0001'' 7)"
proof -
  let ?st1 = "fst (receive_lsa example_router (example_lsa ''A'' 7) ''B'')"
  have rid: "router_id example_router = ''A''" "router_id ?st1 = ''A''"
    by (simp_all add: ex_defs receive_lsa_def Let_def)
  have own: "map_of (lsdb example_router) ''A'' = Some (example_lsa ''A'' 0)"
    by (simp add: ex_defs)
  have sid: "system_id example_isis_router = ''0000.0000.0001''"
    by (simp add: ex_defs)
  have iown: "map_of (i_lsdb example_isis_router) ''0000.0000.0001''
      = Some (example_lsp ''0000.0000.0001'' 0)"
    by (simp add: ex_defs)
  have a: "map_of (lsdb ?st1) ''A'' = Some (example_lsa ''A'' 7)"
    using self_record_acceptance [of "example_lsa ''A'' 7" example_router "''B''"] rid own
    by (simp add: example_lsa_def)
  have b: "map_option lsa_sequence (map_of (lsdb (add_interface ?st1
      ''eth0'' ''10.1.12.1'' ''255.255.255.0'' 10)) ''A'') = Some 0"
    using self_record_acceptance [of _ ?st1 _ "''eth0''" "''10.1.12.1''" "''255.255.255.0''" 10] rid
    by simp
  have c: "map_of (i_lsdb (fst (isis_receive_lsp example_isis_router
      (example_lsp ''0000.0000.0001'' 7) ''0000.0000.0002''))) ''0000.0000.0001''
      = Some (example_lsp ''0000.0000.0001'' 7)"
    using self_record_acceptance [of _ _ "''0000.0000.0002''" _ _ _ _
      "example_lsp ''0000.0000.0001'' 7" example_isis_router] sid iown
    by (simp add: example_lsp_def)
  from a b c show ?thesis by blast
qed

subsection \<open>Sequence numbers of the database\<close>

text \<open>
  A sequence of \<^verbatim>\<open>receive_lsa\<close> calls on one router, and the sequence numbers observed for
  an origin: the one stored at the start, then those of the records received for it.
\<close>

fun receive_lsas :: "OSPFRouter \<Rightarrow> (LSA \<times> string) list \<Rightarrow> OSPFRouter" where
  "receive_lsas st [] = st"
| "receive_lsas st (x # xs) = receive_lsas (fst (receive_lsa st (fst x) (snd x))) xs"

definition observed :: "OSPFRouter \<Rightarrow> (LSA \<times> string) list \<Rightarrow> string \<Rightarrow> int list" where
  "observed st xs origin =
     (case map_of (lsdb st) origin of None \<Rightarrow> [] | Some old \<Rightarrow> [lsa_sequence old]) @
     map (\<lambda>x. lsa_sequence (fst x)) (filter (\<lambda>x. lsa_router_id (fst x) = origin) xs)"

lemma receive_lsas_monotone:
  "map_of (lsdb st) origin = Some old \<Longrightarrow>
   \<exists>new. map_of (lsdb (receive_lsas st xs)) origin = Some new \<and>
         lsa_sequence old \<le> lsa_sequence new"
proof (induction xs arbitrary: st old)
  case Nil
  then show ?case by simp
next
  case (Cons x xs)
  let ?st1 = "fst (receive_lsa st (fst x) (snd x))"
  from Cons.prems have "\<exists>mid. map_of (lsdb ?st1) origin = Some mid \<and>
      lsa_sequence old \<le> lsa_sequence mid"
    by (auto simp add: receive_lsa_lookup)
  then obtain mid where mid: "map_of (lsdb ?st1) origin = Some mid"
    and le: "lsa_sequence old \<le> lsa_sequence mid"
    by blast
  from Cons.IH [OF mid] obtain new where
    "map_of (lsdb (receive_lsas ?st1 xs)) origin = Some new" "lsa_sequence mid \<le> lsa_sequence new"
    by blast
  with le show ?case by auto
qed

lemma receive_lsas_maximum:
  "map_of (lsdb (receive_lsas st xs)) origin = Some new \<Longrightarrow>
   lsa_sequence new \<in> set (observed st xs origin) \<and>
   (\<forall>s \<in> set (observed st xs origin). s \<le> lsa_sequence new)"
proof (induction xs arbitrary: st)
  case Nil
  then show ?case by (simp add: observed_def)
next
  case (Cons x xs)
  let ?st1 = "fst (receive_lsa st (fst x) (snd x))"
  from Cons.prems have fin: "map_of (lsdb (receive_lsas ?st1 xs)) origin = Some new"
    by simp
  note ih = Cons.IH [OF fin]
  have sub: "set (observed ?st1 xs origin) \<subseteq> set (observed st (x # xs) origin)"
    by (auto simp add: observed_def receive_lsa_lookup split: option.splits if_splits)
  have bound: "s \<le> lsa_sequence new" if "s \<in> set (observed st (x # xs) origin)" for s
  proof (cases "s \<in> set (observed ?st1 xs origin)")
    case True
    with ih show ?thesis by blast
  next
    case False
    with that have "\<exists>mid. map_of (lsdb ?st1) origin = Some mid \<and> s \<le> lsa_sequence mid"
      by (auto simp add: observed_def receive_lsa_lookup split: option.splits if_splits)
    then obtain mid where mid: "map_of (lsdb ?st1) origin = Some mid"
      and le: "s \<le> lsa_sequence mid"
      by blast
    from receive_lsas_monotone [OF mid, of xs] fin have "lsa_sequence mid \<le> lsa_sequence new"
      by auto
    with le show ?thesis by simp
  qed
  from ih sub bound show ?case by blast
qed

text \<open>
  A router \<open>A\<close> that has accepted a record of origin \<open>A\<close> with sequence 5 stores sequence 0
  for \<open>A\<close> after \<^verbatim>\<open>add_interface\<close>: the stored sequence number decreases.
\<close>

theorem lsdb_sequence_reset_counterexample:
  "map_option lsa_sequence (map_of (lsdb (fst (receive_lsa example_router
      (example_lsa ''A'' 5) ''B''))) ''A'') = Some 5 \<and>
   map_option lsa_sequence (map_of (lsdb (add_interface
      (fst (receive_lsa example_router (example_lsa ''A'' 5) ''B''))
      ''eth0'' ''10.1.12.1'' ''255.255.255.0'' 10)) ''A'') = Some 0"
  by (simp add: ex_defs receive_lsa_def add_interface_def Let_def)

text \<open>
  Claim C5, as amended. Across any sequence of \<^verbatim>\<open>receive_lsa\<close> calls, an origin present in
  the database stays present and its stored sequence number never decreases, and the
  sequence number stored for an origin is the maximum of those observed for it (the one
  stored at the start and those received). \<^verbatim>\<open>add_interface\<close> is outside the invariant: it
  stores the self record with sequence 0 whatever was stored, and leaves every other
  origin as it was.
\<close>

theorem lsdb_sequence_maximum:
  "(\<forall>old. map_of (lsdb st) origin = Some old \<longrightarrow>
      (\<exists>new. map_of (lsdb (receive_lsas st xs)) origin = Some new \<and>
             lsa_sequence old \<le> lsa_sequence new)) \<and>
   (\<forall>new. map_of (lsdb (receive_lsas st xs)) origin = Some new \<longrightarrow>
      lsa_sequence new \<in> set (observed st xs origin) \<and>
      (\<forall>s \<in> set (observed st xs origin). s \<le> lsa_sequence new)) \<and>
   map_of (lsdb (add_interface st iface ip netmask cost)) =
     (map_of (lsdb st))(router_id st \<mapsto>
        \<lparr>lsa_router_id = router_id st, lsa_sequence = 0,
         lsa_links = map self_link (interfaces (add_interface st iface ip netmask cost)),
         lsa_age = 0\<rparr>)"
proof (intro conjI allI impI)
  fix old assume "map_of (lsdb st) origin = Some old"
  then show "\<exists>new. map_of (lsdb (receive_lsas st xs)) origin = Some new \<and>
      lsa_sequence old \<le> lsa_sequence new"
    by (rule receive_lsas_monotone)
next
  fix new assume fin: "map_of (lsdb (receive_lsas st xs)) origin = Some new"
  from receive_lsas_maximum [OF fin]
  show "lsa_sequence new \<in> set (observed st xs origin)"
    and "\<forall>s \<in> set (observed st xs origin). s \<le> lsa_sequence new"
    by blast+
next
  show "map_of (lsdb (add_interface st iface ip netmask cost)) =
     (map_of (lsdb st))(router_id st \<mapsto>
        \<lparr>lsa_router_id = router_id st, lsa_sequence = 0,
         lsa_links = map self_link (interfaces (add_interface st iface ip netmask cost)),
         lsa_age = 0\<rparr>)"
    by (simp add: add_interface_def create_self_lsa_def update_conv')
qed

definition example_deliveries :: "(LSA \<times> string) list" where
  "example_deliveries =
     [(example_lsa ''B'' 3, ''B''), (example_lsa ''B'' 1, ''C''), (example_lsa ''B'' 2, ''B'')]"

theorem lsdb_sequence_maximum_witness:
  "map_of (lsdb (receive_lsas example_router example_deliveries)) ''B'' = Some (example_lsa ''B'' 3) \<and>
   observed example_router example_deliveries ''B'' = [3, 1, 2] \<and>
   lsa_sequence (example_lsa ''B'' 3) \<in> set (observed example_router example_deliveries ''B'') \<and>
   (\<exists>new. map_of (lsdb (receive_lsas example_router example_deliveries)) ''A'' = Some new \<and>
      0 \<le> lsa_sequence new)"
proof -
  have fin: "map_of (lsdb (receive_lsas example_router example_deliveries)) ''B''
      = Some (example_lsa ''B'' 3)"
    by (simp add: ex_defs example_deliveries_def receive_lsa_def Let_def)
  have obs: "observed example_router example_deliveries ''B'' = [3, 1, 2]"
    by (simp add: ex_defs example_deliveries_def observed_def)
  have own: "map_of (lsdb example_router) ''A'' = Some (example_lsa ''A'' 0)"
    by (simp add: ex_defs)
  have a: "lsa_sequence (example_lsa ''B'' 3) \<in> set (observed example_router example_deliveries ''B'')"
    using lsdb_sequence_maximum [of example_router "''B''" example_deliveries] fin by blast
  have b: "\<exists>new. map_of (lsdb (receive_lsas example_router example_deliveries)) ''A'' = Some new \<and>
      0 \<le> lsa_sequence new"
    using lsdb_sequence_maximum [of example_router "''A''" example_deliveries] own
    by (simp add: example_lsa_def)
  from fin obs a b show ?thesis by blast
qed

subsection \<open>The self record after \<^verbatim>\<open>add_interface\<close>\<close>

lemma map_of_fold_update:
  "distinct (map fst db) \<Longrightarrow>
   map_of (fold (\<lambda>p g. AList.update (fst p) (h (snd p)) g) db g0) k =
     (case map_of db k of Some v \<Rightarrow> Some (h v) | None \<Rightarrow> map_of g0 k)"
proof (induction db arbitrary: g0)
  case Nil
  show ?case by simp
next
  case (Cons a db)
  from Cons.prems have d: "distinct (map fst db)" and n: "fst a \<notin> fst ` set db"
    by auto
  from n have none: "map_of db (fst a) = None"
    by (simp add: map_of_eq_None_iff)
  show ?case
    using Cons.IH [OF d, of "AList.update (fst a) (h (snd a)) g0"] none
    by (cases a) (auto simp add: update_conv' split: option.splits)
qed

lemma map_of_build_graph:
  "distinct (map fst db) \<Longrightarrow>
   map_of (build_graph nbr_of db) k = map_option (link_edges nbr_of (map fst db)) (map_of db k)"
  unfolding build_graph_def
  by (simp add: map_of_fold_update split: option.splits)

lemma link_edges_self_links:
  "link_edges neighbor_router_id ks (map self_link ifs) = [] \<and>
   link_edges neighbor_system_id ks (map self_link ifs) = []"
  by (induction ifs) (simp_all add: link_edges_def self_link_def)

lemma map_of_map_snd:
  "map_of (map (\<lambda>p. (fst p, f (snd p))) xs) k = map_option f (map_of xs k)"
  by (induction xs) auto

lemma self_link_eq:
  "self_link = (\<lambda>p. \<lparr>link_interface = fst p, link_ip = if_ip (snd p),
     link_cost = Some (if_cost (snd p)), neighbor_router_id = None,
     neighbor_system_id = None\<rparr>)"
  by (rule ext) (simp add: self_link_def)

text \<open>
  The two example routers are in the state that \<^verbatim>\<open>connect_routers\<close> and a record exchange
  leave: one interface with one neighbour, a self record whose last link carries the
  neighbour identifier, and the record of that neighbour.
\<close>

definition example_linked :: OSPFRouter where
  "example_linked =
     example_router\<lparr>
       interfaces := [(''eth0'', \<lparr>if_ip = ''10.1.12.1'', if_mask = ''255.255.255.0'',
          if_cost = 10, if_neighbors = {''B''}\<rparr>)],
       lsdb := [(''A'', \<lparr>lsa_router_id = ''A'', lsa_sequence = 0, lsa_links =
          [\<lparr>link_interface = ''eth0'', link_ip = ''10.1.12.1'', link_cost = Some 10,
            neighbor_router_id = None, neighbor_system_id = None\<rparr>,
           \<lparr>link_interface = ''eth0'', link_ip = ''10.1.12.1'', link_cost = Some 10,
            neighbor_router_id = Some ''B'', neighbor_system_id = None\<rparr>], lsa_age = 0\<rparr>),
         (''B'', example_lsa ''B'' 0)]\<rparr>"

definition example_isis_linked :: ISISRouter where
  "example_isis_linked =
     example_isis_router\<lparr>
       i_interfaces := [(''eth0'', \<lparr>if_ip = ''10.2.12.1'', if_mask = ''255.255.255.0'',
          if_cost = 10, if_neighbors = {''0000.0000.0002''}\<rparr>)],
       i_lsdb := [(''0000.0000.0001'', \<lparr>lsp_system_id = ''0000.0000.0001'', lsp_sequence = 0,
          lsp_links =
          [\<lparr>link_interface = ''eth0'', link_ip = ''10.2.12.1'', link_cost = Some 10,
            neighbor_router_id = None, neighbor_system_id = None\<rparr>,
           \<lparr>link_interface = ''eth0'', link_ip = ''10.2.12.1'', link_cost = Some 10,
            neighbor_router_id = None, neighbor_system_id = Some ''0000.0000.0002''\<rparr>],
          lsp_age = 0, lsp_level = LEVEL_1\<rparr>),
         (''0000.0000.0002'', example_lsp ''0000.0000.0002'' 0)]\<rparr>"

text \<open>
  Claim C10. Every call of \<^verbatim>\<open>add_interface\<close> stores a self record rebuilt from the interface
  table as it is after the call: sequence 0, age 0, and one link per interface, in the order
  of the table, that carries the interface name, its address and its cost and no neighbour
  identifier. The links that carried a neighbour identifier are gone, so in the graph of
  the shortest-path computation the router has no outgoing edge. The same holds for the
  ISIS router.
\<close>

theorem add_interface_rebuilds_self_record:
  "map_of (lsdb (add_interface st iface ip netmask cost)) (router_id st) =
     Some \<lparr>lsa_router_id = router_id st, lsa_sequence = 0,
           lsa_links =
             map (\<lambda>p. \<lparr>link_interface = fst p, link_ip = if_ip (snd p),
                        link_cost = Some (if_cost (snd p)), neighbor_router_id = None,
                        neighbor_system_id = None\<rparr>)
               (AList.update iface
                  \<lparr>if_ip = ip, if_mask = netmask, if_cost = cost, if_neighbors = {}\<rparr>
                  (interfaces st)),
           lsa_age = 0\<rparr> \<and>
   (distinct (map fst (lsdb st)) \<longrightarrow>
      map_of (build_graph neighbor_router_id
        (map (\<lambda>p. (fst p, lsa_links (snd p))) (lsdb (add_interface st iface ip netmask cost))))
        (router_id st) = Some []) \<and>
   map_of (i_lsdb (isis_add_interface ist iface ip netmask cost)) (system_id ist) =
     Some \<lparr>lsp_system_id = system_id ist, lsp_sequence = 0,
           lsp_links =
             map (\<lambda>p. \<lparr>link_interface = fst p, link_ip = if_ip (snd p),
                        link_cost = Some (if_cost (snd p)), neighbor_router_id = None,
                        neighbor_system_id = None\<rparr>)
               (AList.update iface
                  \<lparr>if_ip = ip, if_mask = netmask, if_cost = cost, if_neighbors = {}\<rparr>
                  (i_interfaces ist)),
           lsp_age = 0, lsp_level = level ist\<rparr> \<and>
   (distinct (map fst (i_lsdb ist)) \<longrightarrow>
      map_of (build_graph neighbor_system_id
        (map (\<lambda>p. (fst p, lsp_links (snd p))) (i_lsdb (isis_add_interface ist iface ip netmask cost))))
        (system_id ist) = Some [])"
proof (intro conjI impI)
  let ?st' = "add_interface st iface ip netmask cost"
  let ?ist' = "isis_add_interface ist iface ip netmask cost"
  let ?info = "\<lparr>if_ip = ip, if_mask = netmask, if_cost = cost, if_neighbors = {}\<rparr>"
  have own: "map_of (lsdb ?st') (router_id st) =
     Some \<lparr>lsa_router_id = router_id st, lsa_sequence = 0,
           lsa_links = map self_link (AList.update iface ?info (interfaces st)), lsa_age = 0\<rparr>"
    by (simp add: add_interface_def create_self_lsa_def update_conv')
  then show "map_of (lsdb ?st') (router_id st) =
     Some \<lparr>lsa_router_id = router_id st, lsa_sequence = 0,
           lsa_links =
             map (\<lambda>p. \<lparr>link_interface = fst p, link_ip = if_ip (snd p),
                        link_cost = Some (if_cost (snd p)), neighbor_router_id = None,
                        neighbor_system_id = None\<rparr>)
               (AList.update iface ?info (interfaces st)),
           lsa_age = 0\<rparr>"
    by (simp only: self_link_eq)
  have iown: "map_of (i_lsdb ?ist') (system_id ist) =
     Some \<lparr>lsp_system_id = system_id ist, lsp_sequence = 0,
           lsp_links = map self_link (AList.update iface ?info (i_interfaces ist)),
           lsp_age = 0, lsp_level = level ist\<rparr>"
    by (simp add: isis_add_interface_def isis_create_self_lsp_def update_conv')
  then show "map_of (i_lsdb ?ist') (system_id ist) =
     Some \<lparr>lsp_system_id = system_id ist, lsp_sequence = 0,
           lsp_links =
             map (\<lambda>p. \<lparr>link_interface = fst p, link_ip = if_ip (snd p),
                        link_cost = Some (if_cost (snd p)), neighbor_router_id = None,
                        neighbor_system_id = None\<rparr>)
               (AList.update iface ?info (i_interfaces ist)),
           lsp_age = 0, lsp_level = level ist\<rparr>"
    by (simp only: self_link_eq)
  {
    assume "distinct (map fst (lsdb st))"
    then have d: "distinct (map fst (map (\<lambda>p. (fst p, lsa_links (snd p))) (lsdb ?st')))"
      by (simp add: add_interface_def create_self_lsa_def distinct_update comp_def)
    have m: "map_of (map (\<lambda>p. (fst p, lsa_links (snd p))) (lsdb ?st')) (router_id st)
        = Some (map self_link (AList.update iface ?info (interfaces st)))"
      using own by (simp add: map_of_map_snd)
    show "map_of (build_graph neighbor_router_id
        (map (\<lambda>p. (fst p, lsa_links (snd p))) (lsdb ?st'))) (router_id st) = Some []"
      by (simp add: map_of_build_graph [OF d] m link_edges_self_links)
  }
  {
    assume "distinct (map fst (i_lsdb ist))"
    then have d: "distinct (map fst (map (\<lambda>p. (fst p, lsp_links (snd p))) (i_lsdb ?ist')))"
      by (simp add: isis_add_interface_def isis_create_self_lsp_def distinct_update comp_def)
    have m: "map_of (map (\<lambda>p. (fst p, lsp_links (snd p))) (i_lsdb ?ist')) (system_id ist)
        = Some (map self_link (AList.update iface ?info (i_interfaces ist)))"
      using iown by (simp add: map_of_map_snd)
    show "map_of (build_graph neighbor_system_id
        (map (\<lambda>p. (fst p, lsp_links (snd p))) (i_lsdb ?ist'))) (system_id ist) = Some []"
      by (simp add: map_of_build_graph [OF d] m link_edges_self_links)
  }
qed

theorem add_interface_rebuilds_self_record_witness:
  "map_of (build_graph neighbor_router_id
      (map (\<lambda>p. (fst p, lsa_links (snd p))) (lsdb example_linked))) ''A'' = Some [(''B'', 10)] \<and>
   map_of (lsdb (add_interface example_linked ''eth1'' ''10.1.13.1'' ''255.255.255.0'' 20)) ''A'' =
     Some \<lparr>lsa_router_id = ''A'', lsa_sequence = 0, lsa_links =
       [\<lparr>link_interface = ''eth0'', link_ip = ''10.1.12.1'', link_cost = Some 10,
          neighbor_router_id = None, neighbor_system_id = None\<rparr>,
        \<lparr>link_interface = ''eth1'', link_ip = ''10.1.13.1'', link_cost = Some 20,
          neighbor_router_id = None, neighbor_system_id = None\<rparr>], lsa_age = 0\<rparr> \<and>
   map_of (build_graph neighbor_router_id
      (map (\<lambda>p. (fst p, lsa_links (snd p)))
        (lsdb (add_interface example_linked ''eth1'' ''10.1.13.1'' ''255.255.255.0'' 20)))) ''A''
      = Some [] \<and>
   map_of (build_graph neighbor_system_id
      (map (\<lambda>p. (fst p, lsp_links (snd p))) (i_lsdb example_isis_linked))) ''0000.0000.0001''
      = Some [(''0000.0000.0002'', 10)] \<and>
   map_of (i_lsdb (isis_add_interface example_isis_linked ''eth1'' ''10.1.13.1'' ''255.255.255.0'' 20))
      ''0000.0000.0001'' =
     Some \<lparr>lsp_system_id = ''0000.0000.0001'', lsp_sequence = 0, lsp_links =
       [\<lparr>link_interface = ''eth0'', link_ip = ''10.2.12.1'', link_cost = Some 10,
          neighbor_router_id = None, neighbor_system_id = None\<rparr>,
        \<lparr>link_interface = ''eth1'', link_ip = ''10.1.13.1'', link_cost = Some 20,
          neighbor_router_id = None, neighbor_system_id = None\<rparr>],
       lsp_age = 0, lsp_level = LEVEL_1\<rparr> \<and>
   map_of (build_graph neighbor_system_id
      (map (\<lambda>p. (fst p, lsp_links (snd p)))
        (i_lsdb (isis_add_interface example_isis_linked ''eth1'' ''10.1.13.1'' ''255.255.255.0'' 20))))
      ''0000.0000.0001'' = Some []"
proof -
  note T = add_interface_rebuilds_self_record
    [of example_linked "''eth1''" "''10.1.13.1''" "''255.255.255.0''" 20 example_isis_linked]
  have rid: "router_id example_linked = ''A''"
    by (simp add: example_linked_def) (simp add: ex_defs)
  have ifs: "interfaces example_linked = [(''eth0'', \<lparr>if_ip = ''10.1.12.1'',
      if_mask = ''255.255.255.0'', if_cost = 10, if_neighbors = {''B''}\<rparr>)]"
    by (simp add: example_linked_def)
  have d: "distinct (map fst (lsdb example_linked))"
    by (simp add: example_linked_def)
  have sid: "system_id example_isis_linked = ''0000.0000.0001''"
    by (simp add: example_isis_linked_def) (simp add: ex_defs)
  have lv: "level example_isis_linked = LEVEL_1"
    by (simp add: example_isis_linked_def) (simp add: ex_defs)
  have iifs: "i_interfaces example_isis_linked = [(''eth0'', \<lparr>if_ip = ''10.2.12.1'',
      if_mask = ''255.255.255.0'', if_cost = 10, if_neighbors = {''0000.0000.0002''}\<rparr>)]"
    by (simp add: example_isis_linked_def)
  have di: "distinct (map fst (i_lsdb example_isis_linked))"
    by (simp add: example_isis_linked_def)
  have before: "map_of (build_graph neighbor_router_id
      (map (\<lambda>p. (fst p, lsa_links (snd p))) (lsdb example_linked))) ''A'' = Some [(''B'', 10)]"
    by (simp add: example_linked_def) (simp add: example_lsa_def build_graph_def link_edges_def)
  have ibefore: "map_of (build_graph neighbor_system_id
      (map (\<lambda>p. (fst p, lsp_links (snd p))) (i_lsdb example_isis_linked))) ''0000.0000.0001''
      = Some [(''0000.0000.0002'', 10)]"
    by (simp add: example_isis_linked_def) (simp add: example_lsp_def build_graph_def link_edges_def)
  have own: "map_of (lsdb (add_interface example_linked ''eth1'' ''10.1.13.1'' ''255.255.255.0'' 20)) ''A'' =
     Some \<lparr>lsa_router_id = ''A'', lsa_sequence = 0, lsa_links =
       [\<lparr>link_interface = ''eth0'', link_ip = ''10.1.12.1'', link_cost = Some 10,
          neighbor_router_id = None, neighbor_system_id = None\<rparr>,
        \<lparr>link_interface = ''eth1'', link_ip = ''10.1.13.1'', link_cost = Some 20,
          neighbor_router_id = None, neighbor_system_id = None\<rparr>], lsa_age = 0\<rparr>"
    using T [THEN conjunct1] by (simp add: rid ifs)
  have iown: "map_of (i_lsdb (isis_add_interface example_isis_linked ''eth1'' ''10.1.13.1'' ''255.255.255.0'' 20))
      ''0000.0000.0001'' =
     Some \<lparr>lsp_system_id = ''0000.0000.0001'', lsp_sequence = 0, lsp_links =
       [\<lparr>link_interface = ''eth0'', link_ip = ''10.2.12.1'', link_cost = Some 10,
          neighbor_router_id = None, neighbor_system_id = None\<rparr>,
        \<lparr>link_interface = ''eth1'', link_ip = ''10.1.13.1'', link_cost = Some 20,
          neighbor_router_id = None, neighbor_system_id = None\<rparr>],
       lsp_age = 0, lsp_level = LEVEL_1\<rparr>"
    using T [THEN conjunct2, THEN conjunct2, THEN conjunct1] by (simp add: sid lv iifs)
  from T [THEN conjunct2, THEN conjunct1] d
  have a: "map_of (build_graph neighbor_router_id
      (map (\<lambda>p. (fst p, lsa_links (snd p)))
        (lsdb (add_interface example_linked ''eth1'' ''10.1.13.1'' ''255.255.255.0'' 20))))
      (router_id example_linked) = Some []"
    by (rule mp)
  from T [THEN conjunct2, THEN conjunct2, THEN conjunct2] di
  have b: "map_of (build_graph neighbor_system_id
      (map (\<lambda>p. (fst p, lsp_links (snd p)))
        (i_lsdb (isis_add_interface example_isis_linked ''eth1'' ''10.1.13.1'' ''255.255.255.0'' 20))))
      (system_id example_isis_linked) = Some []"
    by (rule mp)
  from before own a [unfolded rid] ibefore iown b [unfolded sid] show ?thesis
    by (intro conjI)
qed

subsection \<open>Three routers in a line\<close>

text \<open>
  The scenario: routers \<open>A\<close>, \<open>B\<close>, \<open>C\<close> are added to a network, \<^verbatim>\<open>connect_routers\<close> links
  \<open>A\<close> with \<open>B\<close> and \<open>B\<close> with \<open>C\<close> at cost 10 (it delivers a hello in each direction), and
  the record exchange of \<^verbatim>\<open>demo.py\<close> runs twice, after which every database holds the three
  origins. The functions \<open>adjacencies\<close>, \<open>origins\<close>, \<open>stored_links\<close> and \<open>route_after_spf\<close> read a
  network: the adjacency states, the origins of each database, the links of the record that
  a router holds for an origin, and the route that a router holds for a prefix after
  \<^verbatim>\<open>calculate_spf\<close>.
\<close>

definition line_network :: "py_error + OSPFNetwork" where
  "line_network =
     bind_err (connect_routers
        (add_router (add_router (add_router OSPFNetwork_init ''A'' ''0.0.0.0'') ''B'' ''0.0.0.0'')
           ''C'' ''0.0.0.0'')
        ''A'' ''B'' ''eth0'' ''eth0'' ''10.1.12.1'' ''10.1.12.2'' 10 0)
       (\<lambda>net. connect_routers net ''B'' ''C'' ''eth1'' ''eth0'' ''10.1.23.2'' ''10.1.23.3'' 10 0)"

definition line_converged :: "py_error + OSPFNetwork" where
  "line_converged = bind_err (bind_err line_network exchange_all) exchange_all"

definition adjacencies :: "OSPFNetwork \<Rightarrow> (string \<times> (string \<times> OSPFState) list) list" where
  "adjacencies net =
     map (\<lambda>p. (fst p, map (\<lambda>q. (fst q, nbr_state (snd q))) (neighbors (snd p)))) (routers net)"

definition origins :: "OSPFNetwork \<Rightarrow> (string \<times> string list) list" where
  "origins net = map (\<lambda>p. (fst p, map fst (lsdb (snd p)))) (routers net)"

definition route_after_spf :: "OSPFNetwork \<Rightarrow> string \<Rightarrow> string \<Rightarrow> py_error + Route option option" where
  "route_after_spf net key prefix =
     (case map_of (routers net) key of
        None \<Rightarrow> Inl KeyError
      | Some r \<Rightarrow> Inr (map_option (\<lambda>r'. map_of (routing_table r') prefix) (calculate_spf r)))"

definition stored_links :: "OSPFNetwork \<Rightarrow> string \<Rightarrow> string \<Rightarrow> link list option" where
  "stored_links net key origin =
     (case map_of (routers net) key of
        None \<Rightarrow> None
      | Some r \<Rightarrow> map_option lsa_links (map_of (lsdb r) origin))"

text \<open>
  The same line built in two other ways: with the link between \<open>B\<close> and \<open>C\<close> connected
  before the link between \<open>A\<close> and \<open>B\<close>, and with a run of the record exchange between the
  two calls of \<^verbatim>\<open>connect_routers\<close>.
\<close>

definition reversed_line_network :: "py_error + OSPFNetwork" where
  "reversed_line_network =
     bind_err (connect_routers
        (add_router (add_router (add_router OSPFNetwork_init ''A'' ''0.0.0.0'') ''B'' ''0.0.0.0'')
           ''C'' ''0.0.0.0'')
        ''B'' ''C'' ''eth1'' ''eth0'' ''10.1.23.2'' ''10.1.23.3'' 10 0)
       (\<lambda>net. connect_routers net ''A'' ''B'' ''eth0'' ''eth0'' ''10.1.12.1'' ''10.1.12.2'' 10 0)"

definition reversed_line_converged :: "py_error + OSPFNetwork" where
  "reversed_line_converged = bind_err (bind_err reversed_line_network exchange_all) exchange_all"

definition interleaved_line_converged :: "py_error + OSPFNetwork" where
  "interleaved_line_converged =
     bind_err (bind_err (bind_err (bind_err (connect_routers
        (add_router (add_router (add_router OSPFNetwork_init ''A'' ''0.0.0.0'') ''B'' ''0.0.0.0'')
           ''C'' ''0.0.0.0'')
        ''A'' ''B'' ''eth0'' ''eth0'' ''10.1.12.1'' ''10.1.12.2'' 10 0)
       exchange_all)
       (\<lambda>net. connect_routers net ''B'' ''C'' ''eth1'' ''eth0'' ''10.1.23.2'' ''10.1.23.3'' 10 0))
       exchange_all) exchange_all"

text \<open>
  Claim C4. Three routers in a line \<open>A\<close>, \<open>B\<close>, \<open>C\<close> with links of cost 10: after the liveness
  signals and a full record exchange the routing table of \<open>A\<close> is to hold a route to \<open>C\<close>
  with cost 20 and next hop \<open>B\<close>. The sources do not deliver it for every way of building
  the line. When the link between \<open>B\<close> and \<open>C\<close> is connected first, the second
  \<^verbatim>\<open>connect_routers\<close> calls \<^verbatim>\<open>add_interface\<close> on \<open>B\<close>, which rebuilds the record of \<open>B\<close> from
  its interface table, and only the link that names \<open>A\<close> is appended afterwards: the link
  that named \<open>C\<close> is gone. Every adjacency is \<^verbatim>\<open>FULL\<close>, every database holds the three
  origins, the record of \<open>B\<close> that \<open>A\<close> holds names \<open>A\<close> only, \<^verbatim>\<open>calculate_spf\<close> on \<open>A\<close>
  returns, and the table of \<open>A\<close> holds the route to \<open>B\<close> and no route to \<open>C\<close>; one more run of
  the exchange changes nothing of it.
\<close>

theorem line_route_missing:
  "bind_err reversed_line_converged (\<lambda>net. Inr (adjacencies net)) =
     Inr [(''A'', [(''B'', FULL)]), (''B'', [(''C'', FULL), (''A'', FULL)]), (''C'', [(''B'', FULL)])] \<and>
   bind_err reversed_line_converged (\<lambda>net. Inr (origins net)) =
     Inr [(''A'', [''A'', ''B'', ''C'']), (''B'', [''B'', ''C'', ''A'']), (''C'', [''C'', ''B'', ''A''])] \<and>
   bind_err reversed_line_converged (\<lambda>net. Inr (stored_links net ''A'' ''B'')) =
     Inr (Some
       [\<lparr>link_interface = ''eth1'', link_ip = ''10.1.23.2'', link_cost = Some 10,
          neighbor_router_id = None, neighbor_system_id = None\<rparr>,
        \<lparr>link_interface = ''eth0'', link_ip = ''10.1.12.2'', link_cost = Some 10,
          neighbor_router_id = None, neighbor_system_id = None\<rparr>,
        \<lparr>link_interface = ''eth0'', link_ip = ''10.1.12.2'', link_cost = Some 10,
          neighbor_router_id = Some ''A'', neighbor_system_id = None\<rparr>]) \<and>
   bind_err reversed_line_converged (\<lambda>net. route_after_spf net ''A'' ''B/32'') =
     Inr (Some (Some \<lparr>rt_prefix = ''B/32'', rt_next_hop = ''B'', rt_cost = Finite 10,
       rt_interface = ''eth0''\<rparr>)) \<and>
   bind_err reversed_line_converged (\<lambda>net. route_after_spf net ''A'' ''C/32'') = Inr (Some None) \<and>
   bind_err (bind_err reversed_line_converged exchange_all)
     (\<lambda>net. route_after_spf net ''A'' ''C/32'') = Inr (Some None)"
  by code_simp

text \<open>
  Connected in the order \<open>A\<close>--\<open>B\<close>, \<open>B\<close>--\<open>C\<close>, and with the records exchanged after both
  calls only, the record of \<open>B\<close> names \<open>C\<close> when \<open>A\<close> receives it, and \<open>A\<close> has the route.
\<close>

lemma line_convergence:
  "bind_err line_converged (\<lambda>net. Inr (adjacencies net)) =
     Inr [(''A'', [(''B'', FULL)]), (''B'', [(''A'', FULL), (''C'', FULL)]), (''C'', [(''B'', FULL)])] \<and>
   bind_err line_converged (\<lambda>net. Inr (origins net)) =
     Inr [(''A'', [''A'', ''B'', ''C'']), (''B'', [''B'', ''A'', ''C'']), (''C'', [''C'', ''B'', ''A''])] \<and>
   bind_err line_converged (\<lambda>net. route_after_spf net ''A'' ''C/32'') =
     Inr (Some (Some \<lparr>rt_prefix = ''C/32'', rt_next_hop = ''B'', rt_cost = Finite 20,
       rt_interface = ''eth0''\<rparr>))"
  by code_simp

text \<open>
  In that order the record of \<open>B\<close> has lost its link to \<open>A\<close> instead: \<open>C\<close> has no route to
  \<open>A\<close>, and \<open>B\<close> has none to its neighbour \<open>A\<close>.
\<close>

lemma line_return_route_missing:
  "bind_err line_converged (\<lambda>net. route_after_spf net ''C'' ''A/32'') = Inr (Some None) \<and>
   bind_err line_converged (\<lambda>net. route_after_spf net ''B'' ''A/32'') = Inr (Some None)"
  by code_simp

text \<open>
  With a run of the exchange between the two calls of \<^verbatim>\<open>connect_routers\<close>, \<open>A\<close> holds the
  first record of \<open>B\<close>, which names \<open>A\<close> only. The record that \<open>B\<close> rebuilds in the second call
  has sequence 0 again, so \<open>A\<close> discards it in every later exchange, and \<open>A\<close> has no route
  to \<open>C\<close>.
\<close>

lemma line_interleaved_exchange:
  "bind_err interleaved_line_converged (\<lambda>net. Inr (adjacencies net)) =
     Inr [(''A'', [(''B'', FULL)]), (''B'', [(''A'', FULL), (''C'', FULL)]), (''C'', [(''B'', FULL)])] \<and>
   bind_err interleaved_line_converged (\<lambda>net. Inr (origins net)) =
     Inr [(''A'', [''A'', ''B'', ''C'']), (''B'', [''B'', ''A'', ''C'']), (''C'', [''C'', ''B'', ''A''])] \<and>
   bind_err interleaved_line_converged (\<lambda>net. Inr (stored_links net ''A'' ''B'')) =
     Inr (Some
       [\<lparr>link_interface = ''eth0'', link_ip = ''10.1.12.2'', link_cost = Some 10,
          neighbor_router_id = None, neighbor_system_id = None\<rparr>,
        \<lparr>link_interface = ''eth0'', link_ip = ''10.1.12.2'', link_cost = Some 10,
          neighbor_router_id = Some ''A'', neighbor_system_id = None\<rparr>]) \<and>
   bind_err interleaved_line_converged (\<lambda>net. Inr (stored_links net ''B'' ''B'')) =
     Inr (Some
       [\<lparr>link_interface = ''eth0'', link_ip = ''10.1.12.2'', link_cost = Some 10,
          neighbor_router_id = None, neighbor_system_id = None\<rparr>,
        \<lparr>link_interface = ''eth1'', link_ip = ''10.1.23.2'', link_cost = Some 10,
          neighbor_router_id = None, neighbor_system_id = None\<rparr>,
        \<lparr>link_interface = ''eth1'', link_ip = ''10.1.23.2'', link_cost = Some 10,
          neighbor_router_id = Some ''C'', neighbor_system_id = None\<rparr>]) \<and>
   bind_err interleaved_line_converged (\<lambda>net. route_after_spf net ''A'' ''C/32'') = Inr (Some None)"
  by code_simp

text \<open>
  The records have to be exchanged by the caller, and until every database is complete:
  after \<^verbatim>\<open>connect_routers\<close> alone each router holds its own record only, after one run of
  the exchange loop \<open>A\<close> holds no record of \<open>C\<close>, and in both cases \<open>A\<close> has no route to \<open>C\<close>.
\<close>

lemma line_before_exchange:
  "bind_err line_network (\<lambda>net. Inr (origins net)) =
     Inr [(''A'', [''A'']), (''B'', [''B'']), (''C'', [''C''])] \<and>
   bind_err line_network (\<lambda>net. route_after_spf net ''A'' ''C/32'') = Inr (Some None) \<and>
   bind_err (bind_err line_network exchange_all) (\<lambda>net. Inr (origins net)) =
     Inr [(''A'', [''A'', ''B'']), (''B'', [''B'', ''A'', ''C'']), (''C'', [''C'', ''B'', ''A''])] \<and>
   bind_err (bind_err line_network exchange_all) (\<lambda>net. route_after_spf net ''A'' ''C/32'') =
     Inr (Some None)"
  by code_simp

subsection \<open>The exchange on a new adjacency\<close>

text \<open>
  A database is well formed when its keys are distinct, as those of a dictionary are, and
  every record is stored under its own origin, as every assignment to \<^verbatim>\<open>self.lsdb\<close> in
  the sources does.
\<close>

definition lsdb_wf :: "(string \<times> LSA) list \<Rightarrow> bool" where
  "lsdb_wf db = (distinct (map fst db) \<and> (\<forall>p \<in> set db. lsa_router_id (snd p) = fst p))"

definition isis_lsdb_wf :: "(string \<times> LSP) list \<Rightarrow> bool" where
  "isis_lsdb_wf db = (distinct (map fst db) \<and> (\<forall>p \<in> set db. lsp_system_id (snd p) = fst p))"

lemma receive_own_entry:
  assumes "lsdb_wf (lsdb st)" and "i < length (lsdb st)"
  shows "receive_lsa st (snd (lsdb st ! i)) nid = (st, [])"
proof -
  let ?p = "lsdb st ! i"
  from assms have mem: "?p \<in> set (lsdb st)" by simp
  with assms have key: "lsa_router_id (snd ?p) = fst ?p"
    by (simp add: lsdb_wf_def)
  from assms mem have "map_of (lsdb st) (fst ?p) = Some (snd ?p)"
    by (simp add: lsdb_wf_def)
  with key show ?thesis
    by (simp add: receive_lsa_def)
qed

lemma send_lsas_loop_noop:
  "lsdb_wf (lsdb st) \<Longrightarrow> i + n \<le> length (lsdb st) \<Longrightarrow>
   send_lsas_loop n i st nid = Inr (st, [])"
proof (induction n arbitrary: i)
  case 0
  show ?case by simp
next
  case (Suc n)
  from Suc.prems have "i < length (lsdb st)" by simp
  with Suc.prems have own: "receive_lsa st (snd (lsdb st ! i)) nid = (st, [])"
    by (simp add: receive_own_entry)
  from Suc.prems have "send_lsas_loop n (Suc i) st nid = Inr (st, [])"
    by (intro Suc.IH) simp_all
  with own show ?case
    by (simp add: bind_err_def)
qed

lemma send_lsas_noop: "lsdb_wf (lsdb st) \<Longrightarrow> send_lsas st nid = Inr (st, [])"
  by (simp add: send_lsas_def send_lsas_loop_noop)

lemma receive_hello_result:
  assumes "lsdb_wf (lsdb st)"
  shows "receive_hello st nid iface now =
     Inr (st\<lparr>neighbors := AList.update nid
            (case map_of (neighbors st) nid of
               None \<Rightarrow> \<lparr>nbr_state = FULL, nbr_last_hello = now, nbr_interface = iface\<rparr>
             | Some info \<Rightarrow> info\<lparr>nbr_last_hello := now,
                 nbr_state := (if nbr_state info = INIT then FULL else nbr_state info)\<rparr>)
            (neighbors st)\<rparr>, [])"
proof (cases "map_of (neighbors st) nid")
  case None
  with assms show ?thesis
    by (simp add: receive_hello_def get_state_def set_state_def exchange_lsas_def bind_err_def
        update_conv' send_lsas_noop)
next
  case (Some info)
  with assms show ?thesis
    by (cases "nbr_state info = INIT")
      (simp_all add: receive_hello_def get_state_def set_state_def exchange_lsas_def bind_err_def
        update_conv' send_lsas_noop)
qed

lemma isis_receive_own_entry:
  assumes "isis_lsdb_wf (i_lsdb st)" and "i < length (i_lsdb st)"
  shows "isis_receive_lsp st (snd (i_lsdb st ! i)) nid = (st, [])"
proof -
  let ?p = "i_lsdb st ! i"
  from assms have mem: "?p \<in> set (i_lsdb st)" by simp
  with assms have key: "lsp_system_id (snd ?p) = fst ?p"
    by (simp add: isis_lsdb_wf_def)
  from assms mem have "map_of (i_lsdb st) (fst ?p) = Some (snd ?p)"
    by (simp add: isis_lsdb_wf_def)
  with key show ?thesis
    by (simp add: isis_receive_lsp_def)
qed

lemma isis_send_lsps_loop_noop:
  "isis_lsdb_wf (i_lsdb st) \<Longrightarrow> i + n \<le> length (i_lsdb st) \<Longrightarrow>
   isis_send_lsps_loop n i st nid = Inr (st, [])"
proof (induction n arbitrary: i)
  case 0
  show ?case by simp
next
  case (Suc n)
  from Suc.prems have "i < length (i_lsdb st)" by simp
  with Suc.prems have own: "isis_receive_lsp st (snd (i_lsdb st ! i)) nid = (st, [])"
    by (simp add: isis_receive_own_entry)
  from Suc.prems have "isis_send_lsps_loop n (Suc i) st nid = Inr (st, [])"
    by (intro Suc.IH) simp_all
  with own show ?case
    by (simp add: bind_err_def)
qed

lemma isis_send_lsps_noop: "isis_lsdb_wf (i_lsdb st) \<Longrightarrow> isis_send_lsps st nid = Inr (st, [])"
  by (simp add: isis_send_lsps_def isis_send_lsps_loop_noop)

lemma isis_nbr_state_same:
  "inbr_state info = s \<Longrightarrow>
   info\<lparr>inbr_last_hello := t, inbr_state := s\<rparr> = info\<lparr>inbr_last_hello := t\<rparr>"
  by (cases info) simp

lemma isis_receive_hello_result:
  assumes "isis_lsdb_wf (i_lsdb st)"
  shows "isis_receive_hello st nid iface lv now =
     Inr (st\<lparr>i_neighbors := AList.update nid
            (case map_of (i_neighbors st) nid of
               None \<Rightarrow> \<lparr>inbr_state = (if levels_compatible (level st) lv then ISIS_UP else ISIS_INIT),
                         inbr_last_hello = now, inbr_interface = iface, inbr_level = lv\<rparr>
             | Some info \<Rightarrow> info\<lparr>inbr_last_hello := now,
                 inbr_state := (if inbr_state info = ISIS_INIT \<and> levels_compatible (level st) lv
                                then ISIS_UP else inbr_state info)\<rparr>)
            (i_neighbors st)\<rparr>, [])"
proof (cases "map_of (i_neighbors st) nid")
  case None
  with assms show ?thesis
    by (simp add: isis_receive_hello_def isis_exchange_lsps_def update_conv' isis_send_lsps_noop)
next
  case (Some info)
  with assms show ?thesis
    by (cases "inbr_state info = ISIS_INIT"; cases "levels_compatible (level st) lv")
      (simp_all add: isis_receive_hello_def isis_exchange_lsps_def update_conv' isis_send_lsps_noop
        isis_nbr_state_same)
qed

text \<open>
  The pass on dictionaries that no call of the sources builds, with a record stored under
  a key that is not its origin: the record is handed to the local router, which files it
  under its origin, and the iteration raises when that adds a key.
\<close>

lemma send_lsas_examples:
  "send_lsas (example_router\<lparr>lsdb := [(''A'', example_lsa ''A'' 0), (''X'', example_lsa ''A'' 1)]\<rparr>) ''B''
     = Inr (example_router\<lparr>lsdb := [(''A'', example_lsa ''A'' 1), (''X'', example_lsa ''A'' 1)]\<rparr>, []) \<and>
   send_lsas (example_router\<lparr>lsdb := [(''X'', example_lsa ''B'' 0)]\<rparr>) ''B'' = Inl RuntimeError \<and>
   isis_send_lsps (example_isis_router\<lparr>i_lsdb := [(''X'', example_lsp ''B'' 0)]\<rparr>) ''B''
     = Inl RuntimeError"
  by (simp add: send_lsas_def isis_send_lsps_def receive_lsa_def isis_receive_lsp_def
      flood_lsa_def isis_flood_lsp_def ex_defs bind_err_def Let_def)

text \<open>Two fresh routers joined by \<^verbatim>\<open>connect_routers\<close>.\<close>

definition pair_network :: "py_error + OSPFNetwork" where
  "pair_network =
     connect_routers (add_router (add_router OSPFNetwork_init ''A'' ''0.0.0.0'') ''B'' ''0.0.0.0'')
       ''A'' ''B'' ''eth0'' ''eth0'' ''10.1.12.1'' ''10.1.12.2'' 10 0"

text \<open>
  Claim C2. A neighbour that reaches the terminal state during \<^verbatim>\<open>receive_hello\<close> is to
  trigger an exchange of the local database to that peer, after which the database of the
  peer holds every origin that the local one held. In the sources \<^verbatim>\<open>_send_lsas\<close> ("Send
  LSAs to neighbor") and \<^verbatim>\<open>_send_lsps\<close> ("Send LSPs to neighbor") call \<^verbatim>\<open>self._receive_lsa\<close> and
  \<^verbatim>\<open>self._receive_lsp\<close>, on the local router, and a router holds no reference to its peer.
  For two fresh routers joined by \<^verbatim>\<open>connect_routers\<close>, each adjacency reaches \<^verbatim>\<open>FULL\<close>
  during \<^verbatim>\<open>receive_hello\<close> and each database still holds the router's own origin only. A
  fresh ISIS router that receives a hello of its own level has the neighbour \<^verbatim>\<open>UP\<close>, has
  produced no packet, and holds its own origin only.
\<close>

theorem exchange_reaches_no_peer:
  "bind_err pair_network (\<lambda>net. Inr (adjacencies net)) =
     Inr [(''A'', [(''B'', FULL)]), (''B'', [(''A'', FULL)])] \<and>
   bind_err pair_network (\<lambda>net. Inr (origins net)) = Inr [(''A'', [''A'']), (''B'', [''B''])] \<and>
   bind_err (isis_receive_hello example_isis_router ''0000.0000.0002'' ''eth0'' LEVEL_1 0)
     (\<lambda>q. Inr (map (\<lambda>p. (fst p, inbr_state (snd p))) (i_neighbors (fst q)),
               map fst (i_lsdb (fst q)), snd q)) =
     Inr ([(''0000.0000.0002'', ISIS_UP)], [''0000.0000.0001''], [])"
  by code_simp

subsection \<open>Flooding\<close>

definition example_hub :: OSPFRouter where
  "example_hub = example_router\<lparr>neighbors :=
     [(''B'', \<lparr>nbr_state = FULL, nbr_last_hello = 0, nbr_interface = ''eth0''\<rparr>),
      (''C'', \<lparr>nbr_state = FULL, nbr_last_hello = 0, nbr_interface = ''eth1''\<rparr>),
      (''E'', \<lparr>nbr_state = INIT, nbr_last_hello = 0, nbr_interface = ''eth2''\<rparr>)]\<rparr>"

definition example_network :: OSPFNetwork where
  "example_network = add_router (add_router OSPFNetwork_init ''A'' ''0.0.0.0'') ''C'' ''0.0.0.0''"

lemma flood_lsa_targets:
  "fst ` set (flood_lsa st r f) =
     {n. \<exists>info. (n, info) \<in> set (neighbors st) \<and> n \<noteq> f \<and> nbr_state info = FULL} \<and>
   snd ` set (flood_lsa st r f) \<subseteq> {r}"
  by (auto simp add: flood_lsa_def image_iff)

lemma isis_flood_lsp_targets:
  "fst ` set (isis_flood_lsp st r f) =
     {n. \<exists>info. (n, info) \<in> set (i_neighbors st) \<and> n \<noteq> f \<and> inbr_state info = ISIS_UP} \<and>
   snd ` set (isis_flood_lsp st r f) \<subseteq> {r}"
  by (auto simp add: isis_flood_lsp_def image_iff)

lemma receive_lsa_accepted:
  "map_of (lsdb st) (lsa_router_id r) = None \<or>
   (\<exists>old. map_of (lsdb st) (lsa_router_id r) = Some old \<and> lsa_sequence old < lsa_sequence r) \<Longrightarrow>
   receive_lsa st r f =
     (st\<lparr>lsdb := AList.update (lsa_router_id r) r (lsdb st)\<rparr>,
      flood_lsa (st\<lparr>lsdb := AList.update (lsa_router_id r) r (lsdb st)\<rparr>) r f)"
  by (auto simp add: receive_lsa_def Let_def)

lemma isis_receive_lsp_accepted:
  "map_of (i_lsdb st) (lsp_system_id r) = None \<or>
   (\<exists>old. map_of (i_lsdb st) (lsp_system_id r) = Some old \<and> lsp_sequence old < lsp_sequence r) \<Longrightarrow>
   isis_receive_lsp st r f =
     (st\<lparr>i_lsdb := AList.update (lsp_system_id r) r (i_lsdb st)\<rparr>,
      isis_flood_lsp (st\<lparr>i_lsdb := AList.update (lsp_system_id r) r (i_lsdb st)\<rparr>) r f)"
  by (auto simp add: isis_receive_lsp_def Let_def)

lemma deliver_lsa_others:
  "deliver_lsa net key r f = Inr net' \<Longrightarrow> k \<noteq> key \<Longrightarrow>
   map_of (routers net') k = map_of (routers net) k"
  by (auto simp add: deliver_lsa_def on_router_def bind_err_def update_conv' split: option.splits)

text \<open>
  Router \<open>A\<close> joined to \<open>B\<close> and to \<open>C\<close> by \<^verbatim>\<open>connect_routers\<close>, both adjacencies \<^verbatim>\<open>FULL\<close>.
  A record of a new origin \<open>D\<close> delivered to \<open>A\<close> as sent by \<open>B\<close> is accepted and the
  flooding loop selects \<open>C\<close>; afterwards the database of \<open>A\<close> holds \<open>D\<close> and the database of
  \<open>C\<close> does not.
\<close>

definition star_network :: "py_error + OSPFNetwork" where
  "star_network =
     bind_err (connect_routers
        (add_router (add_router (add_router OSPFNetwork_init ''A'' ''0.0.0.0'') ''B'' ''0.0.0.0'')
           ''C'' ''0.0.0.0'')
        ''A'' ''B'' ''eth0'' ''eth0'' ''10.1.12.1'' ''10.1.12.2'' 10 0)
       (\<lambda>net. connect_routers net ''A'' ''C'' ''eth1'' ''eth0'' ''10.1.13.1'' ''10.1.13.3'' 10 0)"

theorem flooding_delivers_nothing_counterexample:
  "bind_err star_network (\<lambda>net. Inr (adjacencies net)) =
     Inr [(''A'', [(''B'', FULL), (''C'', FULL)]), (''B'', [(''A'', FULL)]), (''C'', [(''A'', FULL)])] \<and>
   bind_err star_network (\<lambda>net. Inr (origins net)) =
     Inr [(''A'', [''A'']), (''B'', [''B'']), (''C'', [''C''])] \<and>
   bind_err star_network (\<lambda>net. case map_of (routers net) ''A'' of None \<Rightarrow> Inl KeyError
      | Some a \<Rightarrow> Inr (map fst (snd (receive_lsa a (example_lsa ''D'' 1) ''B'')))) = Inr [''C''] \<and>
   bind_err (bind_err star_network (\<lambda>net. deliver_lsa net ''A'' (example_lsa ''D'' 1) ''B''))
      (\<lambda>net. Inr (origins net)) =
     Inr [(''A'', [''A'', ''D'']), (''B'', [''B'']), (''C'', [''C''])]"
  by code_simp

text \<open>
  Claim C3, as amended. When a record is accepted (a new origin, or a strictly greater
  sequence number than the stored one), the flooding step selects exactly the neighbours
  other than the sender whose adjacency is in the terminal state, each for the accepted
  record, and sends nothing: the receiving router changes its database only, and a
  delivery to one router of a network leaves every other router as it was. No neighbour's
  router receives the record.
\<close>

theorem flooding_selects_and_sends_nothing:
  "(map_of (lsdb st) (lsa_router_id r) = None \<or>
    (\<exists>old. map_of (lsdb st) (lsa_router_id r) = Some old \<and> lsa_sequence old < lsa_sequence r) \<longrightarrow>
      fst ` set (snd (receive_lsa st r f)) =
        {n. \<exists>info. (n, info) \<in> set (neighbors st) \<and> n \<noteq> f \<and> nbr_state info = FULL} \<and>
      snd ` set (snd (receive_lsa st r f)) \<subseteq> {r} \<and>
      fst (receive_lsa st r f) = st\<lparr>lsdb := AList.update (lsa_router_id r) r (lsdb st)\<rparr>) \<and>
   (\<forall>net'. deliver_lsa net key r f = Inr net' \<longrightarrow>
      (\<forall>k. k \<noteq> key \<longrightarrow> map_of (routers net') k = map_of (routers net) k)) \<and>
   (map_of (i_lsdb ist) (lsp_system_id p) = None \<or>
    (\<exists>old. map_of (i_lsdb ist) (lsp_system_id p) = Some old \<and> lsp_sequence old < lsp_sequence p) \<longrightarrow>
      fst ` set (snd (isis_receive_lsp ist p f)) =
        {n. \<exists>info. (n, info) \<in> set (i_neighbors ist) \<and> n \<noteq> f \<and> inbr_state info = ISIS_UP} \<and>
      snd ` set (snd (isis_receive_lsp ist p f)) \<subseteq> {p} \<and>
      fst (isis_receive_lsp ist p f) = ist\<lparr>i_lsdb := AList.update (lsp_system_id p) p (i_lsdb ist)\<rparr>)"
proof (intro conjI impI allI)
  assume acc: "map_of (lsdb st) (lsa_router_id r) = None \<or>
    (\<exists>old. map_of (lsdb st) (lsa_router_id r) = Some old \<and> lsa_sequence old < lsa_sequence r)"
  note eq = receive_lsa_accepted [OF acc, of f]
  show "fst ` set (snd (receive_lsa st r f)) =
        {n. \<exists>info. (n, info) \<in> set (neighbors st) \<and> n \<noteq> f \<and> nbr_state info = FULL}"
    using flood_lsa_targets [of "st\<lparr>lsdb := AList.update (lsa_router_id r) r (lsdb st)\<rparr>" r f]
    by (simp add: eq)
  show "snd ` set (snd (receive_lsa st r f)) \<subseteq> {r}"
    using flood_lsa_targets [of "st\<lparr>lsdb := AList.update (lsa_router_id r) r (lsdb st)\<rparr>" r f]
    by (simp add: eq)
  show "fst (receive_lsa st r f) = st\<lparr>lsdb := AList.update (lsa_router_id r) r (lsdb st)\<rparr>"
    by (simp add: eq)
next
  fix net' k
  assume "deliver_lsa net key r f = Inr net'" and "k \<noteq> key"
  then show "map_of (routers net') k = map_of (routers net) k"
    by (rule deliver_lsa_others)
next
  assume acc: "map_of (i_lsdb ist) (lsp_system_id p) = None \<or>
    (\<exists>old. map_of (i_lsdb ist) (lsp_system_id p) = Some old \<and> lsp_sequence old < lsp_sequence p)"
  note eq = isis_receive_lsp_accepted [OF acc, of f]
  show "fst ` set (snd (isis_receive_lsp ist p f)) =
        {n. \<exists>info. (n, info) \<in> set (i_neighbors ist) \<and> n \<noteq> f \<and> inbr_state info = ISIS_UP}"
    using isis_flood_lsp_targets
      [of "ist\<lparr>i_lsdb := AList.update (lsp_system_id p) p (i_lsdb ist)\<rparr>" p f]
    by (simp add: eq)
  show "snd ` set (snd (isis_receive_lsp ist p f)) \<subseteq> {p}"
    using isis_flood_lsp_targets
      [of "ist\<lparr>i_lsdb := AList.update (lsp_system_id p) p (i_lsdb ist)\<rparr>" p f]
    by (simp add: eq)
  show "fst (isis_receive_lsp ist p f) = ist\<lparr>i_lsdb := AList.update (lsp_system_id p) p (i_lsdb ist)\<rparr>"
    by (simp add: eq)
qed

theorem flooding_selects_and_sends_nothing_witness:
  "fst ` set (snd (receive_lsa example_hub (example_lsa ''D'' 1) ''B'')) = {''C''} \<and>
   (\<exists>net'. deliver_lsa example_network ''A'' (example_lsa ''D'' 1) ''B'' = Inr net' \<and>
      map_of (routers net') ''C'' = map_of (routers example_network) ''C'') \<and>
   fst ` set (snd (isis_receive_lsp example_isis_router (example_lsp ''0000.0000.0004'' 1) ''B'')) = {}"
proof -
  note T = flooding_selects_and_sends_nothing [of example_hub "example_lsa ''D'' 1" "''B''"
    example_network "''A''" example_isis_router "example_lsp ''0000.0000.0004'' 1"]
  have acc: "map_of (lsdb example_hub) (lsa_router_id (example_lsa ''D'' 1)) = None"
    by (simp add: example_hub_def ex_defs)
  have iacc: "map_of (i_lsdb example_isis_router) (lsp_system_id (example_lsp ''0000.0000.0004'' 1))
      = None"
    by (simp add: ex_defs)
  have nb: "{n. \<exists>info. (n, info) \<in> set (neighbors example_hub) \<and> n \<noteq> ''B'' \<and>
      nbr_state info = FULL} = {''C''}"
    unfolding flood_lsa_targets [of example_hub "example_lsa ''D'' 1" "''B''", THEN conjunct1, symmetric]
    by (simp add: flood_lsa_def example_hub_def)
  have inb: "{n. \<exists>info. (n, info) \<in> set (i_neighbors example_isis_router) \<and> n \<noteq> ''B'' \<and>
      inbr_state info = ISIS_UP} = {}"
    unfolding isis_flood_lsp_targets [of example_isis_router "example_lsp ''0000.0000.0004'' 1" "''B''",
      THEN conjunct1, symmetric]
    by (simp add: isis_flood_lsp_def ex_defs)
  have del: "\<exists>net'. deliver_lsa example_network ''A'' (example_lsa ''D'' 1) ''B'' = Inr net'"
    by (simp add: example_network_def add_router_def OSPFNetwork_init_def deliver_lsa_def
        on_router_def bind_err_def)
  from T [THEN conjunct1, rule_format, OF disjI1, OF acc]
  have a: "fst ` set (snd (receive_lsa example_hub (example_lsa ''D'' 1) ''B'')) = {''C''}"
    unfolding nb by (rule conjunct1)
  from del obtain net' where d: "deliver_lsa example_network ''A'' (example_lsa ''D'' 1) ''B'' = Inr net'"
    by blast
  from T [THEN conjunct2, THEN conjunct1, rule_format, OF d, of "''C''"]
  have "map_of (routers net') ''C'' = map_of (routers example_network) ''C''"
    by simp
  with d have b: "\<exists>net'. deliver_lsa example_network ''A'' (example_lsa ''D'' 1) ''B'' = Inr net' \<and>
      map_of (routers net') ''C'' = map_of (routers example_network) ''C''"
    by blast
  from T [THEN conjunct2, THEN conjunct2, rule_format, OF disjI1, OF iacc]
  have c: "fst ` set (snd (isis_receive_lsp example_isis_router
      (example_lsp ''0000.0000.0004'' 1) ''B'')) = {}"
    unfolding inb by (rule conjunct1)
  from a b c show ?thesis by (intro conjI)
qed

subsection \<open>Levels of the ISIS router\<close>

text \<open>
  A sequence of calls on one ISIS router: hellos, received records and added interfaces.
  \<open>isis_run\<close> makes the calls in order, stops at the first exception, and collects the
  packets that the flooding loop selects on the way.
\<close>

datatype isis_call =
    Hello string string ISISLevel timestamp
  | ReceiveLSP LSP string
  | AddInterface string string string int

fun isis_call_step :: "ISISRouter \<Rightarrow> isis_call \<Rightarrow> py_error + (ISISRouter \<times> isis_packet list)" where
  "isis_call_step st (Hello n iface lv now) = isis_receive_hello st n iface lv now"
| "isis_call_step st (ReceiveLSP r f) = Inr (isis_receive_lsp st r f)"
| "isis_call_step st (AddInterface iface ip netmask cost) =
     Inr (isis_add_interface st iface ip netmask cost, [])"

fun isis_run :: "ISISRouter \<Rightarrow> isis_call list \<Rightarrow> py_error + (ISISRouter \<times> isis_packet list)" where
  "isis_run st [] = Inr (st, [])"
| "isis_run st (c # cs) =
     bind_err (isis_call_step st c) (\<lambda>r.
     bind_err (isis_run (fst r) cs) (\<lambda>q. Inr (fst q, snd r @ snd q)))"

definition hello_from :: "string \<Rightarrow> isis_call \<Rightarrow> bool" where
  "hello_from p c = (case c of Hello n iface lv now \<Rightarrow> n = p | _ \<Rightarrow> False)"

definition hello_level :: "isis_call \<Rightarrow> ISISLevel option" where
  "hello_level c = (case c of Hello n iface lv now \<Rightarrow> Some lv | _ \<Rightarrow> None)"

definition peer_init :: "string \<Rightarrow> ISISRouter \<Rightarrow> bool" where
  "peer_init p st = (\<forall>info. (p, info) \<in> set (i_neighbors st) \<longrightarrow> inbr_state info = ISIS_INIT)"

lemma set_update_subset: "set (AList.update k v al) \<subseteq> insert (k, v) (set al)"
  by (induction al) auto

lemma isis_lsdb_wf_update:
  "isis_lsdb_wf db \<Longrightarrow> lsp_system_id r = k \<Longrightarrow> isis_lsdb_wf (AList.update k r db)"
  using set_update_subset [of k r db]
  by (auto simp add: isis_lsdb_wf_def distinct_update)

lemma levels_compatible_iff:
  "levels_compatible l1 l2 \<longleftrightarrow> (l1 = LEVEL_1_2 \<or> l2 = LEVEL_1_2 \<or> l1 = l2)"
  by (simp add: levels_compatible_def)

lemma isis_flood_lsp_skips_init:
  "peer_init p st \<Longrightarrow> p \<notin> fst ` set (isis_flood_lsp st r f)"
  by (auto simp add: peer_init_def isis_flood_lsp_def)

lemma isis_step_keeps_peer_init:
  assumes wf: "isis_lsdb_wf (i_lsdb st)" and pin: "peer_init p st"
    and inc: "hello_from p c \<Longrightarrow> \<exists>lv. hello_level c = Some lv \<and> \<not> levels_compatible (level st) lv"
  shows "\<exists>st1 pk. isis_call_step st c = Inr (st1, pk) \<and> isis_lsdb_wf (i_lsdb st1) \<and>
           peer_init p st1 \<and> level st1 = level st \<and> p \<notin> fst ` set pk \<and>
           fst ` set (i_neighbors st) \<subseteq> fst ` set (i_neighbors st1) \<and>
           (hello_from p c \<longrightarrow> p \<in> fst ` set (i_neighbors st1))"
proof (cases c)
  case (Hello n iface lv now)
  let ?v = "case map_of (i_neighbors st) n of
               None \<Rightarrow> \<lparr>inbr_state = (if levels_compatible (level st) lv then ISIS_UP else ISIS_INIT),
                         inbr_last_hello = now, inbr_interface = iface, inbr_level = lv\<rparr>
             | Some info \<Rightarrow> info\<lparr>inbr_last_hello := now,
                 inbr_state := (if inbr_state info = ISIS_INIT \<and> levels_compatible (level st) lv
                                then ISIS_UP else inbr_state info)\<rparr>"
  define st1 where "st1 = st\<lparr>i_neighbors := AList.update n ?v (i_neighbors st)\<rparr>"
  have step: "isis_call_step st c = Inr (st1, [])"
    using Hello isis_receive_hello_result [OF wf] by (simp add: st1_def)
  have v: "inbr_state ?v = ISIS_INIT" if "n = p"
  proof -
    from that Hello inc have nc: "\<not> levels_compatible (level st) lv"
      by (simp add: hello_from_def hello_level_def)
    show ?thesis
    proof (cases "map_of (i_neighbors st) n")
      case None
      with nc show ?thesis by simp
    next
      case (Some info)
      then have "(n, info) \<in> set (i_neighbors st)" by (rule map_of_SomeD)
      with that pin have "inbr_state info = ISIS_INIT" by (simp add: peer_init_def)
      with Some nc show ?thesis by simp
    qed
  qed
  have pin1: "peer_init p st1"
    unfolding peer_init_def
  proof (intro allI impI)
    fix info assume "(p, info) \<in> set (i_neighbors st1)"
    with set_update_subset [of n ?v "i_neighbors st"]
    have "(p, info) = (n, ?v) \<or> (p, info) \<in> set (i_neighbors st)"
      by (auto simp add: st1_def)
    then show "inbr_state info = ISIS_INIT"
    proof
      assume "(p, info) = (n, ?v)"
      with v show ?thesis by auto
    next
      assume "(p, info) \<in> set (i_neighbors st)"
      with pin show ?thesis by (simp add: peer_init_def)
    qed
  qed
  have keys: "fst ` set (i_neighbors st1) = {n} \<union> fst ` set (i_neighbors st)"
    by (simp add: st1_def dom_update)
  have wf1: "isis_lsdb_wf (i_lsdb st1)" and lv1: "level st1 = level st"
    using wf by (simp_all add: st1_def)
  have hf: "hello_from p c \<longrightarrow> p \<in> fst ` set (i_neighbors st1)"
    using Hello keys by (simp add: hello_from_def)
  from keys have sub: "fst ` set (i_neighbors st) \<subseteq> fst ` set (i_neighbors st1)"
    by auto
  from step wf1 pin1 lv1 sub hf show ?thesis
    by (intro exI [of _ st1] exI [of _ "[]"]) simp
next
  case (ReceiveLSP r f)
  let ?st1 = "fst (isis_receive_lsp st r f)"
  have nb: "i_neighbors ?st1 = i_neighbors st" and lv: "level ?st1 = level st"
    by (simp_all add: isis_receive_lsp_def Let_def split: option.splits)
  have wf1: "isis_lsdb_wf (i_lsdb ?st1)"
    using wf by (auto simp add: isis_receive_lsp_def Let_def isis_lsdb_wf_update split: option.splits)
  have pk: "p \<notin> fst ` set (snd (isis_receive_lsp st r f))"
  proof -
    have "peer_init p (st\<lparr>i_lsdb := AList.update (lsp_system_id r) r (i_lsdb st)\<rparr>)"
      using pin by (simp add: peer_init_def)
    from isis_flood_lsp_skips_init [OF this, of r f] show ?thesis
      by (simp add: isis_receive_lsp_def Let_def split: option.splits)
  qed
  from pin nb have "peer_init p ?st1" by (simp add: peer_init_def)
  with nb lv wf1 pk ReceiveLSP show ?thesis
    by (cases "isis_receive_lsp st r f") (simp add: hello_from_def)
next
  case (AddInterface iface ip netmask cost)
  let ?st1 = "isis_add_interface st iface ip netmask cost"
  have "i_neighbors ?st1 = i_neighbors st" "level ?st1 = level st"
    by (simp_all add: isis_add_interface_def isis_create_self_lsp_def)
  moreover have "isis_lsdb_wf (i_lsdb ?st1)"
    using wf by (simp add: isis_add_interface_def isis_create_self_lsp_def isis_lsdb_wf_update)
  ultimately show ?thesis
    using pin AddInterface by (simp add: peer_init_def hello_from_def)
qed


lemma isis_run_keeps_peer_init:
  assumes "isis_lsdb_wf (i_lsdb st)" and "peer_init p st"
    and "\<forall>c \<in> set calls. hello_from p c \<longrightarrow>
           (\<exists>lv. hello_level c = Some lv \<and> \<not> levels_compatible (level st) lv)"
  shows "\<exists>st' pkts. isis_run st calls = Inr (st', pkts) \<and> isis_lsdb_wf (i_lsdb st') \<and>
           peer_init p st' \<and> level st' = level st \<and> p \<notin> fst ` set pkts \<and>
           fst ` set (i_neighbors st) \<subseteq> fst ` set (i_neighbors st') \<and>
           ((\<exists>c \<in> set calls. hello_from p c) \<longrightarrow> p \<in> fst ` set (i_neighbors st'))"
  using assms
proof (induction calls arbitrary: st)
  case Nil
  then show ?case by simp
next
  case (Cons c cs)
  from Cons.prems(3) have inc: "hello_from p c \<Longrightarrow>
      \<exists>lv. hello_level c = Some lv \<and> \<not> levels_compatible (level st) lv"
    by simp
  from isis_step_keeps_peer_init [OF Cons.prems(1,2) inc]
  obtain st1 pk where step: "isis_call_step st c = Inr (st1, pk)"
    and wf1: "isis_lsdb_wf (i_lsdb st1)" and pin1: "peer_init p st1"
    and lv1: "level st1 = level st" and pk: "p \<notin> fst ` set pk"
    and sub1: "fst ` set (i_neighbors st) \<subseteq> fst ` set (i_neighbors st1)"
    and hf1: "hello_from p c \<longrightarrow> p \<in> fst ` set (i_neighbors st1)"
    by blast
  from Cons.prems(3) lv1 have rest: "\<forall>c \<in> set cs. hello_from p c \<longrightarrow>
      (\<exists>lv. hello_level c = Some lv \<and> \<not> levels_compatible (level st1) lv)"
    by simp
  from Cons.IH [OF wf1 pin1 rest]
  obtain st' pkts where run: "isis_run st1 cs = Inr (st', pkts)"
    and wf': "isis_lsdb_wf (i_lsdb st')" and pin': "peer_init p st'"
    and lv': "level st' = level st1" and pkts: "p \<notin> fst ` set pkts"
    and sub': "fst ` set (i_neighbors st1) \<subseteq> fst ` set (i_neighbors st')"
    and hf': "(\<exists>c \<in> set cs. hello_from p c) \<longrightarrow> p \<in> fst ` set (i_neighbors st')"
    by blast
  from step run have "isis_run st (c # cs) = Inr (st', pk @ pkts)"
    by (simp add: bind_err_def)
  moreover from pk pkts have "p \<notin> fst ` set (pk @ pkts)" by auto
  moreover from sub1 sub' have "fst ` set (i_neighbors st) \<subseteq> fst ` set (i_neighbors st')"
    by blast
  moreover from hf1 hf' sub' have "(\<exists>c \<in> set (c # cs). hello_from p c) \<longrightarrow>
      p \<in> fst ` set (i_neighbors st')"
    by auto
  ultimately show ?case
    using wf' pin' lv' lv1 by (intro exI [of _ st'] exI [of _ "pk @ pkts"]) simp
qed

text \<open>
  Claim C8. Two levels are compatible exactly when one of them is \<^verbatim>\<open>LEVEL_1_2\<close> or they are
  equal. Let a router of a single level have a well-formed database and no entry for a
  peer \<open>p\<close>, and let every hello from \<open>p\<close> in a sequence of calls carry a single level other
  than the router's. Then the calls all return, \<open>p\<close> is in state \<^verbatim>\<open>INIT\<close> afterwards if it
  has sent a hello at all, never \<^verbatim>\<open>UP\<close>, and no packet flooded during the calls is addressed
  to \<open>p\<close>. As this holds for every sequence, it holds after every prefix of one.
\<close>

theorem incompatible_peer_stays_init:
  "(levels_compatible l1 l2 \<longleftrightarrow> (l1 = LEVEL_1_2 \<or> l2 = LEVEL_1_2 \<or> l1 = l2)) \<and>
   (isis_lsdb_wf (i_lsdb st) \<and> p \<notin> fst ` set (i_neighbors st) \<and> level st \<noteq> LEVEL_1_2 \<and>
    (\<forall>iface lv now. Hello p iface lv now \<in> set calls \<longrightarrow> lv \<noteq> LEVEL_1_2 \<and> lv \<noteq> level st) \<longrightarrow>
    (\<exists>st' pkts. isis_run st calls = Inr (st', pkts) \<and>
       (\<forall>info. (p, info) \<in> set (i_neighbors st') \<longrightarrow> inbr_state info = ISIS_INIT) \<and>
       ((\<exists>iface lv now. Hello p iface lv now \<in> set calls) \<longrightarrow>
          map_option inbr_state (map_of (i_neighbors st') p) = Some ISIS_INIT) \<and>
       p \<notin> fst ` set pkts))"
proof (intro conjI impI)
  show "levels_compatible l1 l2 \<longleftrightarrow> (l1 = LEVEL_1_2 \<or> l2 = LEVEL_1_2 \<or> l1 = l2)"
    by (rule levels_compatible_iff)
next
  assume a: "isis_lsdb_wf (i_lsdb st) \<and> p \<notin> fst ` set (i_neighbors st) \<and> level st \<noteq> LEVEL_1_2 \<and>
    (\<forall>iface lv now. Hello p iface lv now \<in> set calls \<longrightarrow> lv \<noteq> LEVEL_1_2 \<and> lv \<noteq> level st)"
  then have wf: "isis_lsdb_wf (i_lsdb st)" by simp
  from a have pin: "peer_init p st"
    by (force simp add: peer_init_def)
  have inc: "\<forall>c \<in> set calls. hello_from p c \<longrightarrow>
      (\<exists>lv. hello_level c = Some lv \<and> \<not> levels_compatible (level st) lv)"
  proof (intro ballI impI)
    fix c assume c: "c \<in> set calls" and h: "hello_from p c"
    from h obtain iface lv now where eq: "c = Hello p iface lv now"
      by (cases c) (simp_all add: hello_from_def)
    with c a have "lv \<noteq> LEVEL_1_2 \<and> lv \<noteq> level st" by blast
    with a eq show "\<exists>lv. hello_level c = Some lv \<and> \<not> levels_compatible (level st) lv"
      by (auto simp add: hello_level_def levels_compatible_def)
  qed
  from isis_run_keeps_peer_init [OF wf pin inc]
  obtain st' pkts where run: "isis_run st calls = Inr (st', pkts)"
    and pin': "peer_init p st'" and pk: "p \<notin> fst ` set pkts"
    and hf: "(\<exists>c \<in> set calls. hello_from p c) \<longrightarrow> p \<in> fst ` set (i_neighbors st')"
    by blast
  have present: "map_option inbr_state (map_of (i_neighbors st') p) = Some ISIS_INIT"
    if "\<exists>iface lv now. Hello p iface lv now \<in> set calls"
  proof -
    from that have "\<exists>c \<in> set calls. hello_from p c"
      by (force simp add: hello_from_def)
    with hf have "p \<in> fst ` set (i_neighbors st')" by blast
    then obtain info where m: "map_of (i_neighbors st') p = Some info"
      by (cases "map_of (i_neighbors st') p") (auto simp add: map_of_eq_None_iff)
    then have "(p, info) \<in> set (i_neighbors st')" by (rule map_of_SomeD)
    with pin' have "inbr_state info = ISIS_INIT" by (simp add: peer_init_def)
    with m show ?thesis by simp
  qed
  from run pin' present pk
  show "\<exists>st' pkts. isis_run st calls = Inr (st', pkts) \<and>
       (\<forall>info. (p, info) \<in> set (i_neighbors st') \<longrightarrow> inbr_state info = ISIS_INIT) \<and>
       ((\<exists>iface lv now. Hello p iface lv now \<in> set calls) \<longrightarrow>
          map_option inbr_state (map_of (i_neighbors st') p) = Some ISIS_INIT) \<and>
       p \<notin> fst ` set pkts"
    unfolding peer_init_def by blast
qed

definition example_calls :: "isis_call list" where
  "example_calls =
     [Hello ''P'' ''eth0'' LEVEL_2 0,
      Hello ''Q'' ''eth1'' LEVEL_1 1,
      ReceiveLSP (example_lsp ''0000.0000.0005'' 1) ''Q'',
      Hello ''P'' ''eth0'' LEVEL_2 2]"

theorem incompatible_peer_stays_init_witness:
  "\<exists>st' pkts. isis_run example_isis_router example_calls = Inr (st', pkts) \<and>
     map_option inbr_state (map_of (i_neighbors st') ''P'') = Some ISIS_INIT \<and>
     ''P'' \<notin> fst ` set pkts"
proof -
  have hyp: "isis_lsdb_wf (i_lsdb example_isis_router) \<and>
      ''P'' \<notin> fst ` set (i_neighbors example_isis_router) \<and>
      level example_isis_router \<noteq> LEVEL_1_2 \<and>
      (\<forall>iface lv now. Hello ''P'' iface lv now \<in> set example_calls \<longrightarrow>
         lv \<noteq> LEVEL_1_2 \<and> lv \<noteq> level example_isis_router)"
    by (auto simp add: isis_lsdb_wf_def ex_defs example_calls_def)
  have "Hello ''P'' ''eth0'' LEVEL_2 0 \<in> set example_calls"
    by (simp add: example_calls_def)
  then have some: "\<exists>iface lv now. Hello ''P'' iface lv now \<in> set example_calls"
    by blast
  from incompatible_peer_stays_init [of LEVEL_1 LEVEL_2 example_isis_router "''P''" example_calls,
    THEN conjunct2, rule_format, OF hyp] some
  show ?thesis by blast
qed

subsection \<open>The shortest-path tree\<close>

text \<open>
  The predecessor pointers that the shortest-path loop builds form a tree rooted at the
  computing router. \<open>ends_in previous S v\<close> says that the pointers lead from \<open>v\<close>, inside
  \<open>S\<close>, to a vertex without a pointer; \<open>chain previous v xs r\<close> says that \<open>xs\<close> is the list
  of vertices from \<open>v\<close> along the pointers, up to and without the vertex \<open>r\<close>.
  The invariant \<open>tree_inv\<close> of the loop: a predecessor is a visited vertex with a known
  distance, the pointers of a visited vertex lead through visited vertices to an end, every
  vertex with a distance other than the source has a pointer, the source has none, and
  nothing has been assigned while the source is unvisited.
\<close>

inductive ends_in :: "(string \<times> string) list \<Rightarrow> string set \<Rightarrow> string \<Rightarrow> bool"
  for previous :: "(string \<times> string) list" and S :: "string set" where
  root: "v \<in> S \<Longrightarrow> map_of previous v = None \<Longrightarrow> ends_in previous S v"
| step: "v \<in> S \<Longrightarrow> map_of previous v = Some p \<Longrightarrow> ends_in previous S p \<Longrightarrow>
         ends_in previous S v"

fun chain :: "(string \<times> string) list \<Rightarrow> string \<Rightarrow> string list \<Rightarrow> string \<Rightarrow> bool" where
  "chain previous v [] r = (v = r)"
| "chain previous v (x # xs) r =
     (x = v \<and> (case map_of previous v of None \<Rightarrow> False | Some p \<Rightarrow> chain previous p xs r))"

lemma ends_in_mono:
  "ends_in previous S v \<Longrightarrow> S \<subseteq> S' \<Longrightarrow> (\<forall>x \<in> S. map_of previous' x = map_of previous x) \<Longrightarrow>
   ends_in previous' S' v"
proof (induction rule: ends_in.induct)
  case (root v)
  then show ?case by (auto intro: ends_in.root)
next
  case (step v p)
  then have "v \<in> S'" "map_of previous' v = Some p" "ends_in previous' S' p"
    by auto
  then show ?case by (rule ends_in.step)
qed

lemma walk_ends:
  "ends_in previous S v \<Longrightarrow>
   \<exists>xs r. walk previous v acc = Some (acc @ xs) \<and> chain previous v xs r \<and>
          map_of previous r = None \<and> (r = v \<or> (\<exists>w. map_of previous w = Some r))"
proof (induction arbitrary: acc rule: ends_in.induct)
  case (root v)
  then have "walk previous v acc = Some (acc @ [])"
    by (subst walk.simps) simp
  with root show ?case
    by (intro exI [of _ "[]"] exI [of _ v]) simp
next
  case (step v p)
  from step.IH [of "acc @ [v]"] obtain xs r where
    w: "walk previous p (acc @ [v]) = Some ((acc @ [v]) @ xs)"
    and c: "chain previous p xs r" and n: "map_of previous r = None"
    and o: "r = p \<or> (\<exists>w. map_of previous w = Some r)"
    by blast
  from step.hyps w have "walk previous v acc = Some (acc @ (v # xs))"
    by (subst walk.simps) simp
  moreover from step.hyps c have "chain previous v (v # xs) r" by simp
  moreover from o step.hyps have "\<exists>w. map_of previous w = Some r" by auto
  ultimately show ?case using n
    by (intro exI [of _ "v # xs"] exI [of _ r]) simp
qed



definition tree_inv ::
  "string \<Rightarrow> string set \<Rightarrow> (string \<times> distance) list \<times> (string \<times> string) list \<Rightarrow> bool" where
  "tree_inv src U dp =
     ((\<forall>v p. map_of (snd dp) v = Some p \<longrightarrow> p \<notin> U \<and> p \<in> fst ` set (fst dp)) \<and>
      (\<forall>v. v \<notin> U \<longrightarrow> ends_in (snd dp) (- U) v) \<and>
      (\<forall>v \<in> fst ` set (fst dp). v \<noteq> src \<longrightarrow> map_of (snd dp) v \<noteq> None) \<and>
      map_of (snd dp) src = None \<and>
      (src \<in> U \<longrightarrow> dp = ([(src, Finite 0)], [])))"

lemma tree_inv_parent:
  "tree_inv src U dp \<Longrightarrow> map_of (snd dp) v = Some p \<Longrightarrow> p \<notin> U \<and> p \<in> fst ` set (fst dp)"
  unfolding tree_inv_def by blast

lemma tree_inv_ends: "tree_inv src U dp \<Longrightarrow> v \<notin> U \<Longrightarrow> ends_in (snd dp) (- U) v"
  unfolding tree_inv_def by blast

lemma tree_inv_has_parent:
  "tree_inv src U dp \<Longrightarrow> v \<in> fst ` set (fst dp) \<Longrightarrow> v \<noteq> src \<Longrightarrow> map_of (snd dp) v \<noteq> None"
  unfolding tree_inv_def by blast

lemma tree_inv_source: "tree_inv src U dp \<Longrightarrow> map_of (snd dp) src = None"
  unfolding tree_inv_def by blast

lemma tree_inv_start: "tree_inv src U dp \<Longrightarrow> src \<in> U \<Longrightarrow> dp = ([(src, Finite 0)], [])"
  unfolding tree_inv_def by blast

lemma tree_invI:
  assumes "\<And>v p. map_of (snd dp) v = Some p \<Longrightarrow> p \<notin> U \<and> p \<in> fst ` set (fst dp)"
    and "\<And>v. v \<notin> U \<Longrightarrow> ends_in (snd dp) (- U) v"
    and "\<And>v. v \<in> fst ` set (fst dp) \<Longrightarrow> v \<noteq> src \<Longrightarrow> map_of (snd dp) v \<noteq> None"
    and "map_of (snd dp) src = None"
    and "src \<in> U \<Longrightarrow> dp = ([(src, Finite 0)], [])"
  shows "tree_inv src U dp"
  unfolding tree_inv_def using assms by blast

lemma tree_inv_update:
  assumes inv: "tree_inv src U dp" and src: "src \<notin> U" and c: "c \<notin> U"
    and ck: "c \<in> fst ` set (fst dp)" and n: "n \<in> U"
  shows "tree_inv src U (AList.update n d (fst dp), AList.update n c (snd dp))"
proof (rule tree_invI)
  fix v p assume "map_of (snd (AList.update n d (fst dp), AList.update n c (snd dp))) v = Some p"
  then have "(v = n \<and> p = c) \<or> map_of (snd dp) v = Some p"
    by (simp add: update_conv' split: if_splits)
  then show "p \<notin> U \<and> p \<in> fst ` set (fst (AList.update n d (fst dp), AList.update n c (snd dp)))"
  proof
    assume "v = n \<and> p = c"
    with c ck show ?thesis by (simp add: dom_update)
  next
    assume "map_of (snd dp) v = Some p"
    from tree_inv_parent [OF inv this] show ?thesis by (simp add: dom_update)
  qed
next
  fix v assume "v \<notin> U"
  with inv have e: "ends_in (snd dp) (- U) v" by (rule tree_inv_ends)
  have agree: "\<forall>x \<in> - U. map_of (AList.update n c (snd dp)) x = map_of (snd dp) x"
    using n by (simp add: update_conv')
  from ends_in_mono [OF e subset_refl agree]
  show "ends_in (snd (AList.update n d (fst dp), AList.update n c (snd dp))) (- U) v"
    by simp
next
  fix v assume "v \<in> fst ` set (fst (AList.update n d (fst dp), AList.update n c (snd dp)))"
    and ns: "v \<noteq> src"
  then have "v = n \<or> v \<in> fst ` set (fst dp)" by (simp add: dom_update)
  then show "map_of (snd (AList.update n d (fst dp), AList.update n c (snd dp))) v \<noteq> None"
  proof
    assume "v = n"
    then show ?thesis by (simp add: update_conv')
  next
    assume "v \<in> fst ` set (fst dp)"
    from tree_inv_has_parent [OF inv this ns] show ?thesis by (simp add: update_conv')
  qed
next
  from src n have "src \<noteq> n" by blast
  with tree_inv_source [OF inv]
  show "map_of (snd (AList.update n d (fst dp), AList.update n c (snd dp))) src = None"
    by (simp add: update_conv')
next
  assume "src \<in> U"
  with src show "(AList.update n d (fst dp), AList.update n c (snd dp)) = ([(src, Finite 0)], [])"
    by simp
qed


definition relax_edge ::
  "string \<Rightarrow> string list \<Rightarrow> string \<times> int \<Rightarrow>
   (string \<times> distance) list \<times> (string \<times> string) list \<Rightarrow>
   (string \<times> distance) list \<times> (string \<times> string) list" where
  "relax_edge c u e dp =
     (if fst e \<in> set u \<and>
         (case map_of (fst dp) (fst e) of
            None \<Rightarrow> True
          | Some d \<Rightarrow> dist_less
              (add_cost (case map_of (fst dp) c of None \<Rightarrow> Infinite | Some d \<Rightarrow> d) (snd e)) d)
      then (AList.update (fst e)
              (add_cost (case map_of (fst dp) c of None \<Rightarrow> Infinite | Some d \<Rightarrow> d) (snd e)) (fst dp),
            AList.update (fst e) c (snd dp))
      else dp)"

lemma relax_Cons: "relax c u (e # es) dp = relax c u es (relax_edge c u e dp)"
  by (simp add: relax_edge_def Let_def)

lemma relax_edge_inv:
  assumes "tree_inv src (set u) dp" and "src \<notin> set u" and "c \<notin> set u"
    and "c \<in> fst ` set (fst dp)"
  shows "tree_inv src (set u) (relax_edge c u e dp) \<and> c \<in> fst ` set (fst (relax_edge c u e dp))"
proof (cases "relax_edge c u e dp = dp")
  case True
  with assms show ?thesis by simp
next
  case False
  then have n: "fst e \<in> set u"
    and eq: "relax_edge c u e dp = (AList.update (fst e)
              (add_cost (case map_of (fst dp) c of None \<Rightarrow> Infinite | Some d \<Rightarrow> d) (snd e)) (fst dp),
            AList.update (fst e) c (snd dp))"
    by (simp_all add: relax_edge_def split: if_splits)
  from tree_inv_update [OF assms n] assms(4) show ?thesis
    unfolding eq by (simp add: dom_update)
qed

lemma relax_inv:
  "tree_inv src (set u) dp \<Longrightarrow> src \<notin> set u \<Longrightarrow> c \<notin> set u \<Longrightarrow> c \<in> fst ` set (fst dp) \<Longrightarrow>
   tree_inv src (set u) (relax c u es dp)"
proof (induction es arbitrary: dp)
  case Nil
  then show ?case by simp
next
  case (Cons e es)
  from relax_edge_inv [OF Cons.prems, of e]
  have "tree_inv src (set u) (relax_edge c u e dp)"
    and "c \<in> fst ` set (fst (relax_edge c u e dp))"
    by blast+
  from Cons.IH [OF this(1) Cons.prems(2,3) this(2)] show ?case
    unfolding relax_Cons .
qed


lemma filter_eq_ConsD:
  assumes "filter P xs = c # cs"
  shows "\<forall>p \<in> set (c # cs). P p \<and> p \<in> set xs"
proof -
  have "\<forall>p \<in> set (filter P xs). P p \<and> p \<in> set xs" by simp
  then show ?thesis unfolding assms .
qed

lemma start_candidates:
  "filter (\<lambda>p. fst p \<in> U) [(src, d)] = c # cs \<Longrightarrow> c = (src, d) \<and> cs = []"
  by (simp split: if_splits)


lemma ends_in_superset:
  assumes "ends_in previous S v" and "S \<subseteq> S'"
  shows "ends_in previous S' v"
proof -
  have "\<forall>x \<in> S. map_of previous x = map_of previous x" by simp
  from ends_in_mono [OF assms this] show ?thesis .
qed

lemma tree_inv_visit:
  assumes inv: "tree_inv src (set unvisited) dp"
    and cands: "filter (\<lambda>p. fst p \<in> set unvisited) (fst dp) = c # cs"
    and cur: "current = min_scan (fst c) (snd c) cs"
  shows "tree_inv src (set (removeAll current unvisited)) dp \<and>
         src \<notin> set (removeAll current unvisited) \<and>
         current \<notin> set (removeAll current unvisited) \<and>
         current \<in> fst ` set (fst dp) \<and> current \<in> set unvisited"
proof -
  note all = filter_eq_ConsD [OF cands]
  from min_scan_mem [of "fst c" "snd c" cs]
  have "current = fst c \<or> current \<in> fst ` set cs"
    unfolding cur .
  then have "\<exists>p \<in> set (c # cs). current = fst p"
    by auto
  then obtain q where q: "q \<in> set (c # cs)" and cq: "current = fst q"
    by blast
  from all q have qu: "fst q \<in> set unvisited" and qd: "q \<in> set (fst dp)"
    by blast+
  from qu have cu: "current \<in> set unvisited"
    unfolding cq .
  from qd have ck: "current \<in> fst ` set (fst dp)"
    unfolding cq by (rule imageI)
  have src: "src \<notin> set (removeAll current unvisited)"
  proof (cases "src \<in> set unvisited")
    case True
    from tree_inv_start [OF inv True] have "fst dp = [(src, Finite 0)]"
      by simp
    with cands have "filter (\<lambda>p. fst p \<in> set unvisited) [(src, Finite 0)] = c # cs"
      by simp
    from start_candidates [OF this] cur have "current = src"
      by simp
    then show ?thesis by simp
  next
    case False
    then show ?thesis by simp
  qed
  have sub: "- set unvisited \<subseteq> - set (removeAll current unvisited)"
    by auto
  have "tree_inv src (set (removeAll current unvisited)) dp"
  proof (rule tree_invI)
    fix v p assume "map_of (snd dp) v = Some p"
    from tree_inv_parent [OF inv this]
    show "p \<notin> set (removeAll current unvisited) \<and> p \<in> fst ` set (fst dp)"
      by simp
  next
    fix v assume v: "v \<notin> set (removeAll current unvisited)"
    show "ends_in (snd dp) (- set (removeAll current unvisited)) v"
    proof (cases "v \<in> set unvisited")
      case False
      from ends_in_superset [OF tree_inv_ends [OF inv False] sub] show ?thesis .
    next
      case True
      with v have vc: "v = current" by simp
      have vm: "v \<in> - set (removeAll current unvisited)"
        unfolding vc by simp
      show ?thesis
      proof (cases "map_of (snd dp) v")
        case None
        from vm None show ?thesis by (rule ends_in.root)
      next
        case (Some p)
        from tree_inv_parent [OF inv Some] have "p \<notin> set unvisited"
          by simp
        from ends_in_superset [OF tree_inv_ends [OF inv this] sub]
        have "ends_in (snd dp) (- set (removeAll current unvisited)) p" .
        with vm Some show ?thesis by (rule ends_in.step)
      qed
    qed
  next
    fix v assume "v \<in> fst ` set (fst dp)" "v \<noteq> src"
    with inv show "map_of (snd dp) v \<noteq> None" by (rule tree_inv_has_parent)
  next
    from inv show "map_of (snd dp) src = None" by (rule tree_inv_source)
  next
    assume "src \<in> set (removeAll current unvisited)"
    with src show "dp = ([(src, Finite 0)], [])" by simp
  qed
  moreover have "current \<notin> set (removeAll current unvisited)" by simp
  ultimately show ?thesis using src cu ck by (intro conjI)
qed

lemma dijkstra_inv:
  "tree_inv src (set unvisited) dp \<Longrightarrow> \<exists>U. tree_inv src U (dijkstra graph unvisited dp)"
proof (induction "length unvisited" arbitrary: unvisited dp rule: less_induct)
  case less
  show ?case
  proof (cases "unvisited = [] \<or> filter (\<lambda>p. fst p \<in> set unvisited) (fst dp) = []")
    case True
    then have "dijkstra graph unvisited dp = dp"
      by (subst dijkstra.simps) auto
    with less.prems show ?thesis by auto
  next
    case False
    then obtain c cs where cands: "filter (\<lambda>p. fst p \<in> set unvisited) (fst dp) = c # cs"
      by (cases "filter (\<lambda>p. fst p \<in> set unvisited) (fst dp)") auto
    define current where "current = min_scan (fst c) (snd c) cs"
    define unvisited' where "unvisited' = removeAll current unvisited"
    define dp' where "dp' = (case map_of graph current of None \<Rightarrow> dp
       | Some edges \<Rightarrow> relax current unvisited' edges dp)"
    from False cands have eq: "dijkstra graph unvisited dp = dijkstra graph unvisited' dp'"
      unfolding dp'_def unvisited'_def current_def
      by (subst dijkstra.simps) (simp add: Let_def)
    from tree_inv_visit [OF less.prems cands current_def]
    have inv: "tree_inv src (set unvisited') dp" and src: "src \<notin> set unvisited'"
      and cur: "current \<notin> set unvisited'" and ck: "current \<in> fst ` set (fst dp)"
      and cu: "current \<in> set unvisited"
      by (simp_all add: unvisited'_def)
    have inv': "tree_inv src (set unvisited') dp'"
    proof (cases "map_of graph current")
      case None
      with inv show ?thesis by (simp add: dp'_def)
    next
      case (Some edges)
      with relax_inv [OF inv src cur ck, of edges] show ?thesis by (simp add: dp'_def)
    qed
    from cu have "length unvisited' < length unvisited"
      by (simp add: unvisited'_def length_removeAll_less)
    from less.hyps [OF this inv'] show ?thesis
      unfolding eq .
  qed
qed

lemma spf_tree_inv: "\<exists>U. tree_inv (router_id st) U (spf_tree st)"
  unfolding spf_tree_def
proof (rule dijkstra_inv, rule tree_invI)
  fix v
  show "ends_in (snd ([(router_id st, Finite 0)], [])) (- set (map fst (lsdb st))) v"
    if "v \<notin> set (map fst (lsdb st))"
    using that by (intro ends_in.root) simp_all
qed simp_all

lemma tree_walk:
  assumes inv: "tree_inv src U dp" and m: "map_of (snd dp) dest = Some p"
  shows "\<exists>xs. walk (snd dp) dest [] = Some (dest # xs) \<and> chain (snd dp) dest (dest # xs) src"
proof -
  from tree_inv_parent [OF inv m] have pu: "p \<notin> U" and pk: "p \<in> fst ` set (fst dp)"
    by simp_all
  from walk_ends [OF tree_inv_ends [OF inv pu], of "[dest]"]
  obtain xs r where w: "walk (snd dp) p [dest] = Some ([dest] @ xs)"
    and c: "chain (snd dp) p xs r" and n: "map_of (snd dp) r = None"
    and o: "r = p \<or> (\<exists>w. map_of (snd dp) w = Some r)"
    by blast
  from o pk tree_inv_parent [OF inv] have "r \<in> fst ` set (fst dp)" by blast
  with tree_inv_has_parent [OF inv this] n have "r = src" by blast
  with c m have "chain (snd dp) dest (dest # xs) src" by simp
  moreover from m w have "walk (snd dp) dest [] = Some (dest # xs)"
    by (subst walk.simps) simp
  ultimately show ?thesis by blast
qed

subsection \<open>The routes of the table\<close>

text \<open>
  \<open>pred_path previous path\<close>: every vertex of \<open>path\<close> is the predecessor of the one after it.
  The walk of \<^verbatim>\<open>_find_next_hop\<close> and \<^verbatim>\<open>_get_path\<close> along the tree ends at the computing router,
  so that the reversed path is such a path from the router to the destination, and the
  vertex that \<^verbatim>\<open>_find_next_hop\<close> returns is its second one.
\<close>

fun pred_path :: "(string \<times> string) list \<Rightarrow> string list \<Rightarrow> bool" where
  "pred_path previous [] = True"
| "pred_path previous [a] = True"
| "pred_path previous (a # b # rest) =
     (map_of previous b = Some a \<and> pred_path previous (b # rest))"

lemma pred_path_snoc:
  "pred_path previous ys \<Longrightarrow> ys \<noteq> [] \<Longrightarrow> map_of previous v = Some (last ys) \<Longrightarrow>
   pred_path previous (ys @ [v])"
proof (induction previous ys rule: pred_path.induct)
  case (1 previous)
  then show ?case by simp
next
  case (2 previous a)
  then show ?case by simp
next
  case (3 previous a b rest)
  then show ?case by simp
qed

lemma pred_path_nth:
  "pred_path previous path \<Longrightarrow> Suc i < length path \<Longrightarrow>
   map_of previous (path ! Suc i) = Some (path ! i)"
proof (induction previous path arbitrary: i rule: pred_path.induct)
  case (1 previous)
  then show ?case by simp
next
  case (2 previous a)
  then show ?case by simp
next
  case (3 previous a b rest)
  show ?case
  proof (cases i)
    case 0
    with 3 show ?thesis by simp
  next
    case (Suc j)
    with 3 have "map_of previous ((b # rest) ! Suc j) = Some ((b # rest) ! j)"
      by simp
    with Suc show ?thesis by simp
  qed
qed

lemma chain_pred_path:
  "chain previous v xs r \<Longrightarrow> pred_path previous (rev (xs @ [r])) \<and> hd (xs @ [r]) = v"
proof (induction xs arbitrary: v)
  case Nil
  then show ?case by simp
next
  case (Cons x xs)
  from Cons.prems obtain p where xv: "x = v" and m: "map_of previous v = Some p"
    and c: "chain previous p xs r"
    by (auto split: option.splits)
  from Cons.IH [OF c] have pp: "pred_path previous (rev (xs @ [r]))"
    and h: "hd (xs @ [r]) = p"
    by simp_all
  have ne: "rev (xs @ [r]) \<noteq> []" by simp
  have "last (rev (xs @ [r])) = hd (xs @ [r])"
    by (simp add: last_rev)
  with h m have "map_of previous v = Some (last (rev (xs @ [r])))" by simp
  from pred_path_snoc [OF pp ne this] xv show ?case by simp
qed

lemma walk_next_hop:
  assumes w: "walk previous dest [] = Some (dest # xs)" and m: "map_of previous dest = Some p"
  shows "find_next_hop rid dest previous = Some (Some (last (dest # xs)))"
    and "get_path rid dest previous = Some (rid # rev (dest # xs))"
proof -
  have "((dest # xs) @ [rid]) ! (length ((dest # xs) @ [rid]) - 2) = (dest # xs) ! length xs"
    using nth_append [of "dest # xs" "[rid]" "length xs"] by simp
  also have "\<dots> = last (dest # xs)"
    by (simp add: last_conv_nth)
  finally show "find_next_hop rid dest previous = Some (Some (last (dest # xs)))"
    using w m by (simp add: find_next_hop_def Let_def)
  from w show "get_path rid dest previous = Some (rid # rev (dest # xs))"
    by (simp add: get_path_def)
qed

lemma route_entry_table:
  "route_entry (st\<lparr>routing_table := t\<rparr>) d previous = route_entry st d previous"
  by (simp add: route_entry_def cong: option.case_cong if_cong)

lemma route_entry_SomeD:
  assumes "route_entry st d previous = Some (Some r)"
  shows "fst d \<noteq> router_id st"
    and "find_next_hop (router_id st) (fst d) previous = Some (Some (rt_next_hop r))"
    and "rt_next_hop r \<in> set (map fst (neighbors st))"
    and "get_interface_to_neighbor (interfaces st) (rt_next_hop r) = Some (rt_interface r)"
    and "rt_prefix r = fst d @ ''/32''" and "rt_cost r = snd d"
  using assms
  by (auto simp add: route_entry_def split: if_splits option.splits intro: rev_image_eqI)

lemma find_next_hop_SomeD:
  "find_next_hop rid dest previous = Some (Some nh) \<Longrightarrow> \<exists>p. map_of previous dest = Some p"
  by (cases "map_of previous dest") (simp_all add: find_next_hop_def)

lemma get_interface_SomeD:
  "get_interface_to_neighbor ifs n = Some iface \<Longrightarrow>
   \<exists>info. (iface, info) \<in> set ifs \<and> n \<in> if_neighbors info"
proof -
  assume a: "get_interface_to_neighbor ifs n = Some iface"
  then obtain p where f: "find (\<lambda>p. n \<in> if_neighbors (snd p)) ifs = Some p" and i: "fst p = iface"
    by (auto simp add: get_interface_to_neighbor_def split: option.splits)
  from f have "p \<in> set ifs \<and> n \<in> if_neighbors (snd p)"
    by (auto simp add: find_Some_iff)
  with i have "(iface, snd p) \<in> set ifs \<and> n \<in> if_neighbors (snd p)"
    by (cases p) auto
  then show ?thesis by blast
qed

lemma route_entry_total:
  assumes inv: "tree_inv (router_id st) U dp"
  shows "route_entry st d (snd dp) \<noteq> None"
proof (cases "map_of (snd dp) (fst d)")
  case None
  then have "find_next_hop (router_id st) (fst d) (snd dp) = Some None"
    by (simp add: find_next_hop_def)
  then show ?thesis
    by (simp add: route_entry_def)
next
  case (Some p)
  from tree_walk [OF inv Some] obtain xs
    where w: "walk (snd dp) (fst d) [] = Some (fst d # xs)"
    by blast
  note nh = walk_next_hop [OF w Some, of "router_id st"]
  show ?thesis
    by (simp add: route_entry_def nh split: option.splits)
qed

lemma route_entry_path:
  assumes inv: "tree_inv (router_id st) U dp"
    and re: "route_entry st d (snd dp) = Some (Some r)"
  shows "\<exists>path. get_path (router_id st) (fst d) (snd dp) = Some path \<and>
     2 \<le> length path \<and> hd path = router_id st \<and> last path = fst d \<and>
     (\<forall>i. Suc i < length path \<longrightarrow> map_of (snd dp) (path ! Suc i) = Some (path ! i)) \<and>
     rt_next_hop r = path ! 1"
proof -
  note D = route_entry_SomeD [OF re]
  from find_next_hop_SomeD [OF D(2)] obtain p where m: "map_of (snd dp) (fst d) = Some p"
    by blast
  from tree_walk [OF inv m] obtain xs
    where w: "walk (snd dp) (fst d) [] = Some (fst d # xs)"
      and c: "chain (snd dp) (fst d) (fst d # xs) (router_id st)"
    by blast
  note nh = walk_next_hop [OF w m, of "router_id st"]
  let ?path = "router_id st # rev (fst d # xs)"
  from chain_pred_path [OF c] have pp: "pred_path (snd dp) ?path"
    by simp
  have nth: "\<forall>i. Suc i < length ?path \<longrightarrow> map_of (snd dp) (?path ! Suc i) = Some (?path ! i)"
    using pred_path_nth [OF pp] by blast
  have one: "?path ! 1 = last (fst d # xs)"
    by (simp add: hd_rev [symmetric] hd_conv_nth del: rev.simps)
  from D(2) nh(1) have "rt_next_hop r = last (fst d # xs)"
    by simp
  with one have hop: "rt_next_hop r = ?path ! 1"
    by simp
  have len: "2 \<le> length ?path" by simp
  have h: "hd ?path = router_id st" by simp
  have l: "last ?path = fst d" by simp
  from nh(2) len h l nth hop show ?thesis
    by blast
qed

lemma build_routes_entries:
  "build_routes st ds previous = Some st' \<Longrightarrow> map_of (routing_table st') k = Some r \<Longrightarrow>
   map_of (routing_table st) k = Some r \<or>
   (\<exists>d \<in> set ds. route_entry st d previous = Some (Some r) \<and> k = rt_prefix r)"
proof (induction ds arbitrary: st)
  case Nil
  then show ?case by simp
next
  case (Cons d ds)
  show ?case
  proof (cases "route_entry st d previous")
    case None
    with Cons.prems show ?thesis by simp
  next
    case (Some e)
    show ?thesis
    proof (cases e)
      case None
      with Some Cons.prems have "build_routes st ds previous = Some st'" by simp
      from Cons.IH [OF this Cons.prems(2)] show ?thesis by auto
    next
      case (Some r0)
      let ?st1 = "st\<lparr>routing_table := AList.update (rt_prefix r0) r0 (routing_table st)\<rparr>"
      from Some \<open>route_entry st d previous = Some e\<close> Cons.prems
      have "build_routes ?st1 ds previous = Some st'" by simp
      from Cons.IH [OF this Cons.prems(2)]
      have "map_of (routing_table ?st1) k = Some r \<or>
        (\<exists>d \<in> set ds. route_entry st d previous = Some (Some r) \<and> k = rt_prefix r)"
        by (simp add: route_entry_table)
      then show ?thesis
      proof
        assume "map_of (routing_table ?st1) k = Some r"
        then have "(k = rt_prefix r0 \<and> r = r0) \<or> map_of (routing_table st) k = Some r"
          by (auto simp add: update_conv' split: if_splits)
        with Some \<open>route_entry st d previous = Some e\<close> show ?thesis
          by auto
      next
        assume "\<exists>d \<in> set ds. route_entry st d previous = Some (Some r) \<and> k = rt_prefix r"
        then show ?thesis by auto
      qed
    qed
  qed
qed

lemma build_routes_total:
  "\<forall>d \<in> set ds. route_entry st d previous \<noteq> None \<Longrightarrow>
   \<exists>st'. build_routes st ds previous = Some st'"
proof (induction ds arbitrary: st)
  case Nil
  show ?case by simp
next
  case (Cons d ds)
  from Cons.prems obtain e where e: "route_entry st d previous = Some e"
    by auto
  show ?case
  proof (cases e)
    case None
    from Cons.prems have "\<forall>d \<in> set ds. route_entry st d previous \<noteq> None" by simp
    from Cons.IH [OF this] e None show ?thesis by simp
  next
    case (Some r0)
    let ?st1 = "st\<lparr>routing_table := AList.update (rt_prefix r0) r0 (routing_table st)\<rparr>"
    from Cons.prems have "\<forall>d \<in> set ds. route_entry ?st1 d previous \<noteq> None"
      by (simp add: route_entry_table)
    from Cons.IH [OF this] e Some show ?thesis by simp
  qed
qed

text \<open>
  Claim C6. \<^verbatim>\<open>calculate_spf\<close> returns on every state of the router. With two origins or more
  in the database, every route of the table that it builds belongs to a destination of the
  distances, other than the router itself, and has the prefix and the distance of that
  destination; the path that \<^verbatim>\<open>_get_path\<close> reconstructs for the destination starts at the
  router and ends at the destination, and each vertex of it is the predecessor of the next;
  the next hop of the route is the second vertex of this path, the first hop after the
  router, whatever the predecessor of the destination is; the next hop is a key of the
  neighbour table, and it is a member of the neighbour set of the interface of the route.
  A destination whose first hop is no key of the neighbour table, or is in the neighbour
  set of no interface, has no route in the table, and no error is raised for it.
\<close>

theorem routes_use_first_hop:
  "\<exists>st'. calculate_spf st = Some st' \<and>
     (2 \<le> length (lsdb st) \<longrightarrow>
        (\<forall>prefix r. map_of (routing_table st') prefix = Some r \<longrightarrow>
           (\<exists>dest path.
              (dest, rt_cost r) \<in> set (fst (spf_tree st)) \<and> dest \<noteq> router_id st \<and>
              prefix = dest @ ''/32'' \<and> rt_prefix r = prefix \<and>
              get_path (router_id st) dest (snd (spf_tree st)) = Some path \<and>
              2 \<le> length path \<and> hd path = router_id st \<and> last path = dest \<and>
              (\<forall>i. Suc i < length path \<longrightarrow>
                 map_of (snd (spf_tree st)) (path ! Suc i) = Some (path ! i)) \<and>
              rt_next_hop r = path ! 1 \<and>
              rt_next_hop r \<in> fst ` set (neighbors st) \<and>
              (\<exists>info. (rt_interface r, info) \<in> set (interfaces st) \<and>
                 rt_next_hop r \<in> if_neighbors info))) \<and>
        (\<forall>d \<in> set (fst (spf_tree st)). \<forall>path.
           get_path (router_id st) (fst d) (snd (spf_tree st)) = Some path \<and>
           (path ! 1 \<notin> fst ` set (neighbors st) \<or>
            (\<forall>iface info. (iface, info) \<in> set (interfaces st) \<longrightarrow>
               path ! 1 \<notin> if_neighbors info)) \<longrightarrow>
           map_of (routing_table st') (fst d @ ''/32'') = None))"
proof (cases "length (lsdb st) < 2")
  case True
  then show ?thesis by (simp add: calculate_spf_def)
next
  case False
  obtain U where inv: "tree_inv (router_id st) U (spf_tree st)"
    using spf_tree_inv by blast
  let ?ds = "fst (spf_tree st)"
  let ?prev = "snd (spf_tree st)"
  let ?st0 = "st\<lparr>routing_table := []\<rparr>"
  have "\<forall>d \<in> set ?ds. route_entry ?st0 d ?prev \<noteq> None"
    using route_entry_total [OF inv] by (simp add: route_entry_table)
  from build_routes_total [OF this] obtain st'
    where b: "build_routes ?st0 ?ds ?prev = Some st'"
    by blast
  with False have c: "calculate_spf st = Some st'"
    by (simp add: calculate_spf_def build_routing_table_def)
  have routes: "\<exists>dest path.
      (dest, rt_cost r) \<in> set ?ds \<and> dest \<noteq> router_id st \<and>
      prefix = dest @ ''/32'' \<and> rt_prefix r = prefix \<and>
      get_path (router_id st) dest ?prev = Some path \<and>
      2 \<le> length path \<and> hd path = router_id st \<and> last path = dest \<and>
      (\<forall>i. Suc i < length path \<longrightarrow> map_of ?prev (path ! Suc i) = Some (path ! i)) \<and>
      rt_next_hop r = path ! 1 \<and>
      rt_next_hop r \<in> fst ` set (neighbors st) \<and>
      (\<exists>info. (rt_interface r, info) \<in> set (interfaces st) \<and>
         rt_next_hop r \<in> if_neighbors info)"
    if m: "map_of (routing_table st') prefix = Some r" for prefix r
  proof -
    from build_routes_entries [OF b m] obtain d where d: "d \<in> set ?ds"
      and re: "route_entry st d ?prev = Some (Some r)" and k: "prefix = rt_prefix r"
      by (auto simp add: route_entry_table)
    note D = route_entry_SomeD [OF re]
    from route_entry_path [OF inv re] obtain path
      where p: "get_path (router_id st) (fst d) ?prev = Some path"
        "2 \<le> length path" "hd path = router_id st" "last path = fst d"
        "\<forall>i. Suc i < length path \<longrightarrow> map_of ?prev (path ! Suc i) = Some (path ! i)"
        "rt_next_hop r = path ! 1"
      by blast
    from d D(6) have mem: "(fst d, rt_cost r) \<in> set ?ds"
      by simp
    from D(3) have nb: "rt_next_hop r \<in> fst ` set (neighbors st)"
      by simp
    from get_interface_SomeD [OF D(4)]
    have ifc: "\<exists>info. (rt_interface r, info) \<in> set (interfaces st) \<and>
        rt_next_hop r \<in> if_neighbors info" .
    from k D(5) have pre: "prefix = fst d @ ''/32''" "rt_prefix r = prefix"
      by simp_all
    from mem D(1) pre p nb ifc show ?thesis
      by blast
  qed
  have omitted: "map_of (routing_table st') (fst d @ ''/32'') = None"
    if d: "d \<in> set ?ds" and g: "get_path (router_id st) (fst d) ?prev = Some path"
      and no: "path ! 1 \<notin> fst ` set (neighbors st) \<or>
        (\<forall>iface info. (iface, info) \<in> set (interfaces st) \<longrightarrow> path ! 1 \<notin> if_neighbors info)"
    for d path
  proof (rule ccontr)
    assume "map_of (routing_table st') (fst d @ ''/32'') \<noteq> None"
    then obtain r where "map_of (routing_table st') (fst d @ ''/32'') = Some r"
      by blast
    from routes [OF this] obtain dest path' where e: "fst d @ ''/32'' = dest @ ''/32''"
      and g': "get_path (router_id st) dest ?prev = Some path'"
      and hop: "rt_next_hop r = path' ! 1"
      and nb: "rt_next_hop r \<in> fst ` set (neighbors st)"
      and ifc: "\<exists>info. (rt_interface r, info) \<in> set (interfaces st) \<and>
        rt_next_hop r \<in> if_neighbors info"
      by blast
    from e have "dest = fst d" by simp
    with g g' have "path' = path" by simp
    with hop nb ifc no show False by auto
  qed
  from c False routes omitted show ?thesis
    by blast
qed

text \<open>
  A router \<open>A\<close> with the database of a line \<open>A\<close>, \<open>B\<close>, \<open>C\<close>, \<open>D\<close> and of a further router \<open>E\<close>
  that its record names and that is no neighbour of it: the route to \<open>D\<close> has the next hop
  \<open>B\<close>, while the predecessor of \<open>D\<close> is \<open>C\<close>, and \<open>E\<close> has a distance and no route.
\<close>

definition example_spf_router :: OSPFRouter where
  "example_spf_router =
     example_router\<lparr>
       neighbors := [(''B'', \<lparr>nbr_state = FULL, nbr_last_hello = 0, nbr_interface = ''eth0''\<rparr>)],
       interfaces :=
         [(''eth0'', \<lparr>if_ip = ''10.1.12.1'', if_mask = ''255.255.255.0'', if_cost = 10,
             if_neighbors = {''B''}\<rparr>),
          (''eth1'', \<lparr>if_ip = ''10.1.15.1'', if_mask = ''255.255.255.0'', if_cost = 10,
             if_neighbors = {}\<rparr>)],
       lsdb :=
         [(''A'', \<lparr>lsa_router_id = ''A'', lsa_sequence = 0, lsa_links =
             [\<lparr>link_interface = ''eth0'', link_ip = ''10.1.12.1'', link_cost = Some 10,
                neighbor_router_id = Some ''B'', neighbor_system_id = None\<rparr>,
              \<lparr>link_interface = ''eth1'', link_ip = ''10.1.15.1'', link_cost = Some 10,
                neighbor_router_id = Some ''E'', neighbor_system_id = None\<rparr>], lsa_age = 0\<rparr>),
          (''B'', \<lparr>lsa_router_id = ''B'', lsa_sequence = 0, lsa_links =
             [\<lparr>link_interface = ''eth1'', link_ip = ''10.1.23.2'', link_cost = Some 10,
                neighbor_router_id = Some ''C'', neighbor_system_id = None\<rparr>], lsa_age = 0\<rparr>),
          (''C'', \<lparr>lsa_router_id = ''C'', lsa_sequence = 0, lsa_links =
             [\<lparr>link_interface = ''eth1'', link_ip = ''10.1.34.3'', link_cost = Some 10,
                neighbor_router_id = Some ''D'', neighbor_system_id = None\<rparr>], lsa_age = 0\<rparr>),
          (''D'', example_lsa ''D'' 0),
          (''E'', example_lsa ''E'' 0)]\<rparr>"

lemma example_spf_tree:
  "spf_tree example_spf_router =
     ([(''A'', Finite 0), (''B'', Finite 10), (''E'', Finite 10), (''C'', Finite 20), (''D'', Finite 30)],
      [(''B'', ''A''), (''E'', ''A''), (''C'', ''B''), (''D'', ''C'')])"
  by code_simp

lemma example_spf_table:
  "map_option routing_table (calculate_spf example_spf_router) =
     Some [(''B/32'', \<lparr>rt_prefix = ''B/32'', rt_next_hop = ''B'', rt_cost = Finite 10,
              rt_interface = ''eth0''\<rparr>),
           (''C/32'', \<lparr>rt_prefix = ''C/32'', rt_next_hop = ''B'', rt_cost = Finite 20,
              rt_interface = ''eth0''\<rparr>),
           (''D/32'', \<lparr>rt_prefix = ''D/32'', rt_next_hop = ''B'', rt_cost = Finite 30,
              rt_interface = ''eth0''\<rparr>)]"
  by code_simp

lemma example_spf_paths:
  "get_path ''A'' ''D'' (snd (spf_tree example_spf_router)) = Some [''A'', ''B'', ''C'', ''D''] \<and>
   get_path ''A'' ''E'' (snd (spf_tree example_spf_router)) = Some [''A'', ''E'']"
  by code_simp

theorem routes_use_first_hop_witness:
  "\<exists>st' r. calculate_spf example_spf_router = Some st' \<and>
     map_of (routing_table st') ''D/32'' = Some r \<and>
     get_path ''A'' ''D'' (snd (spf_tree example_spf_router)) = Some [''A'', ''B'', ''C'', ''D''] \<and>
     rt_next_hop r = [''A'', ''B'', ''C'', ''D''] ! 1 \<and>
     rt_next_hop r = ''B'' \<and>
     map_of (snd (spf_tree example_spf_router)) ''D'' = Some ''C'' \<and>
     get_path ''A'' ''E'' (snd (spf_tree example_spf_router)) = Some [''A'', ''E''] \<and>
     ''E'' \<notin> fst ` set (neighbors example_spf_router) \<and>
     map_of (routing_table st') ''E/32'' = None"
proof -
  let ?ex = example_spf_router
  let ?r = "\<lparr>rt_prefix = ''D/32'', rt_next_hop = ''B'', rt_cost = Finite 30,
    rt_interface = ''eth0''\<rparr>"
  have rid: "router_id ?ex = ''A''"
    by (simp add: example_spf_router_def) (simp add: ex_defs)
  have len: "2 \<le> length (lsdb ?ex)"
    by (simp add: example_spf_router_def)
  have nb: "''E'' \<notin> fst ` set (neighbors ?ex)"
    by (simp add: example_spf_router_def)
  have prev: "map_of (snd (spf_tree ?ex)) ''D'' = Some ''C''"
    by (simp add: example_spf_tree)
  have mem: "(''E'', Finite 10) \<in> set (fst (spf_tree ?ex))"
    by (simp add: example_spf_tree)
  note paths = example_spf_paths
  from routes_use_first_hop [of ?ex] len obtain st'
    where c: "calculate_spf ?ex = Some st'"
      and routes: "\<forall>prefix r. map_of (routing_table st') prefix = Some r \<longrightarrow>
        (\<exists>dest path. prefix = dest @ ''/32'' \<and>
           get_path (router_id ?ex) dest (snd (spf_tree ?ex)) = Some path \<and>
           rt_next_hop r = path ! 1)"
      and omitted: "\<forall>d \<in> set (fst (spf_tree ?ex)). \<forall>path.
           get_path (router_id ?ex) (fst d) (snd (spf_tree ?ex)) = Some path \<and>
           (path ! 1 \<notin> fst ` set (neighbors ?ex) \<or>
            (\<forall>iface info. (iface, info) \<in> set (interfaces ?ex) \<longrightarrow>
               path ! 1 \<notin> if_neighbors info)) \<longrightarrow>
           map_of (routing_table st') (fst d @ ''/32'') = None"
    by blast
  from example_spf_table c have m: "map_of (routing_table st') ''D/32'' = Some ?r"
    by simp
  from routes m obtain dest path where e: "''D/32'' = dest @ ''/32''"
    and g: "get_path (router_id ?ex) dest (snd (spf_tree ?ex)) = Some path"
    and hop: "rt_next_hop ?r = path ! 1"
    by blast
  have "''D/32'' = ''D'' @ ''/32''" by simp
  with e have "dest = ''D''" by (simp only: append_same_eq)
  with g rid paths have "path = [''A'', ''B'', ''C'', ''D'']" by simp
  with hop have first: "rt_next_hop ?r = [''A'', ''B'', ''C'', ''D''] ! 1" by simp
  from paths rid have "get_path (router_id ?ex) (fst (''E'', Finite 10)) (snd (spf_tree ?ex))
      = Some [''A'', ''E''] \<and> [''A'', ''E''] ! 1 \<notin> fst ` set (neighbors ?ex)"
    using nb by simp
  with omitted mem have "map_of (routing_table st') (fst (''E'', Finite 10) @ ''/32'') = None"
    by blast
  then have none: "map_of (routing_table st') ''E/32'' = None" by simp
  from c m paths first prev nb none show ?thesis
    by (intro exI [of _ st'] exI [of _ ?r]) simp
qed

end
